theory Spec2Isabelle
  imports Complex_Main
begin

section \<open>The FileUploader component of react-dropzone-uploader\<close>

text \<open>
  The component of \<^verbatim>\<open>src/FileUploader.js\<close> is event driven: every handler, every
  listener and every continuation of an \<^verbatim>\<open>async\<close> function runs to its next
  \<^verbatim>\<open>await\<close> without interruption. The embedding gives one state transformer for each
  such piece of code and a datatype of the events that start them.

  The \<^verbatim>\<open>fileWithMeta\<close> objects are shared between the list \<^verbatim>\<open>this._files\<close>,
  the closures and the transport listeners, and stay alive after they are spliced out of
  the list. They are therefore kept in a store (\<open>heap\<close>), addressed by their position, and
  \<open>files\<close> is a list of addresses.

  What the component does to the outside (observer callbacks, re-renders, object URLs,
  transport calls) is appended to a \<open>trace\<close>. Host callbacks are recorded, not run: the one
  way a host callback re-enters the component that the source provides for, calling
  \<^verbatim>\<open>fileWithMeta.triggerUpload()\<close> from \<^verbatim>\<open>onUploadReady\<close>, is an argument of the event.
  The properties of the component are read once, at the start of a run.
\<close>

subsection \<open>JavaScript values\<close>

text \<open>
  A number as far as \<^verbatim>\<open>percent\<close> needs it: a finite value, \<^verbatim>\<open>Infinity\<close> or
  \<^verbatim>\<open>NaN\<close>. Byte counts are non-negative integers, and a quotient of two of them is
  zero exactly when its numerator is, so that the truth value of
  \<^verbatim>\<open>(e.loaded * 100.0) / e.total\<close> does not depend on rounding.

  Sizes, byte counts, status codes and the counter of ids are natural numbers and the two
  limits are integers: the numbers of the source are exact on them up to \<open>2 ^ 53\<close>.
\<close>

datatype jsnum = Finite rat | Infinity | NaN

definition js_div :: "nat \<Rightarrow> nat \<Rightarrow> jsnum" where
  "js_div a b =
     (if b = 0 then (if a = 0 then NaN else Infinity)
      else Finite (of_nat a / of_nat b))"

definition truthy :: "jsnum \<Rightarrow> bool" where
  "truthy x = (x \<noteq> NaN \<and> x \<noteq> Finite 0)"

definition js_or :: "jsnum \<Rightarrow> jsnum \<Rightarrow> jsnum" where
  "js_or x d = (if truthy x then x else d)"

fun startsWith :: "string \<Rightarrow> string \<Rightarrow> bool" where
  "startsWith s [] = True"
| "startsWith [] (c # p) = False"
| "startsWith (a # s) (c # p) = (a = c \<and> startsWith s p)"

text \<open>\<^verbatim>\<open>Array.prototype.findIndex\<close>, with \<open>None\<close> for \<^verbatim>\<open>-1\<close>.\<close>

fun findIndex :: "('a \<Rightarrow> bool) \<Rightarrow> 'a list \<Rightarrow> nat option" where
  "findIndex P [] = None"
| "findIndex P (x # xs) =
     (if P x then Some 0 else map_option Suc (findIndex P xs))"

text \<open>\<^verbatim>\<open>xs.splice(i, 1)\<close>\<close>

definition splice1 :: "nat \<Rightarrow> 'a list \<Rightarrow> 'a list" where
  "splice1 i xs = take i xs @ drop (Suc i) xs"

subsection \<open>Data\<close>

type_synonym ref = nat
type_synonym xid = nat
type_synonym object_url = nat

datatype status =
    Preparing | Error_file_size | Uploading | Done | Error_upload_params
  | Aborted | Headers_received | Error_upload | Other_status string

text \<open>
  \<^verbatim>\<open>lastModified && new Date(lastModified).toISOString()\<close>: a falsy \<^verbatim>\<open>lastModified\<close>
  is passed through as it is, and \<open>IsoDate t\<close> is the ISO string of the time value \<open>t\<close>, in
  milliseconds since the epoch.
\<close>

datatype date_field = Undefined | Zero | IsoDate int

record raw_file =
  file_name :: string
  file_size :: nat
  file_type :: string
  lastModified :: "int option"

record meta =
  name :: string
  size_m :: nat
  type_m :: string
  lastModifiedDate :: date_field
  uploadedDate :: string
  status :: status
  percent :: jsnum
  id_m :: nat
  previewUrl :: "object_url option"
  width :: "nat option"
  height :: "nat option"
  duration :: "rat option"
  videoWidth :: "nat option"
  videoHeight :: "nat option"

text \<open>
  The \<^verbatim>\<open>meta\<close> object that \<^verbatim>\<open>getUploadParams\<close> may return: every key it has
  overwrites the key of the same name in \<^verbatim>\<open>fileWithMeta.meta\<close>
  (\<^verbatim>\<open>{ ...fileWithMeta.meta, ...extraMeta }\<close>). A key that \<^verbatim>\<open>fileWithMeta.meta\<close>
  never has is read by nothing in the component and is left out.
\<close>

record meta_patch =
  x_name :: "string option"
  x_size :: "nat option"
  x_type :: "string option"
  x_lastModifiedDate :: "date_field option"
  x_uploadedDate :: "string option"
  x_status :: "status option"
  x_percent :: "jsnum option"
  x_id :: "nat option"
  x_previewUrl :: "object_url option"
  x_width :: "nat option"
  x_height :: "nat option"
  x_duration :: "rat option"
  x_videoWidth :: "nat option"
  x_videoHeight :: "nat option"

definition spread :: "meta \<Rightarrow> meta_patch \<Rightarrow> meta" where
  "spread m x =
     \<lparr> name = (case x_name x of None \<Rightarrow> name m | Some v \<Rightarrow> v),
       size_m = (case x_size x of None \<Rightarrow> size_m m | Some v \<Rightarrow> v),
       type_m = (case x_type x of None \<Rightarrow> type_m m | Some v \<Rightarrow> v),
       lastModifiedDate =
         (case x_lastModifiedDate x of None \<Rightarrow> lastModifiedDate m | Some v \<Rightarrow> v),
       uploadedDate = (case x_uploadedDate x of None \<Rightarrow> uploadedDate m | Some v \<Rightarrow> v),
       status = (case x_status x of None \<Rightarrow> status m | Some v \<Rightarrow> v),
       percent = (case x_percent x of None \<Rightarrow> percent m | Some v \<Rightarrow> v),
       id_m = (case x_id x of None \<Rightarrow> id_m m | Some v \<Rightarrow> v),
       previewUrl = (case x_previewUrl x of None \<Rightarrow> previewUrl m | Some v \<Rightarrow> Some v),
       width = (case x_width x of None \<Rightarrow> width m | Some v \<Rightarrow> Some v),
       height = (case x_height x of None \<Rightarrow> height m | Some v \<Rightarrow> Some v),
       duration = (case x_duration x of None \<Rightarrow> duration m | Some v \<Rightarrow> Some v),
       videoWidth = (case x_videoWidth x of None \<Rightarrow> videoWidth m | Some v \<Rightarrow> Some v),
       videoHeight =
         (case x_videoHeight x of None \<Rightarrow> videoHeight m | Some v \<Rightarrow> Some v) \<rparr>"

definition no_patch :: meta_patch where
  "no_patch =
     \<lparr> x_name = None, x_size = None, x_type = None, x_lastModifiedDate = None,
       x_uploadedDate = None, x_status = None, x_percent = None, x_id = None,
       x_previewUrl = None, x_width = None, x_height = None, x_duration = None,
       x_videoWidth = None, x_videoHeight = None \<rparr>"

text \<open>
  The value \<^verbatim>\<open>getUploadParams\<close> resolves to, after the defaults of the
  destructuring: absent \<^verbatim>\<open>fields\<close> and \<^verbatim>\<open>headers\<close> are empty, an absent
  \<^verbatim>\<open>meta\<close> patches nothing.
\<close>

record params =
  fields_p :: "(string \<times> string) list"
  headers :: "(string \<times> string) list"
  extraMeta :: meta_patch
  http_method :: "string option"
  url :: "string option"

definition no_params :: params where
  "no_params =
     \<lparr> fields_p = [], headers = [], extraMeta = no_patch, http_method = None, url = None \<rparr>"

datatype kind = Image | Audio | Video

text \<open>
  Where the \<^verbatim>\<open>handleFile\<close> call of an entry stands. \<open>AwaitDecode k u t pt\<close>:
  \<^verbatim>\<open>generatePreview\<close> is suspended at the \<^verbatim>\<open>await\<close> of the decoder of kind \<open>k\<close>; \<open>u\<close>,
  \<open>t\<close> and \<open>pt\<close> are the \<^verbatim>\<open>objectUrl\<close>, \<^verbatim>\<open>type\<close> and \<^verbatim>\<open>previewTypes\<close> its
  continuation has captured. \<open>AwaitPreview\<close>: \<^verbatim>\<open>generatePreview\<close> has returned and
  \<^verbatim>\<open>handleFile\<close> waits for its promise. \<open>Returned\<close>: \<^verbatim>\<open>handleFile\<close> has returned.
\<close>

datatype stage = AwaitDecode kind object_url string "string list" | AwaitPreview | Returned

text \<open>
  A \<^verbatim>\<open>fileWithMeta\<close> object with what its closures hold: \<open>triggerUpload\<close> says that the
  closure is attached to the object, \<open>triggered\<close> is the variable of that closure, and
  \<open>awaiting_params\<close> counts the calls of \<^verbatim>\<open>uploadFile\<close> that wait for
  \<^verbatim>\<open>getUploadParams\<close>.
\<close>

record fileWithMeta =
  file_obj :: raw_file
  meta :: meta
  xhr :: "xid option"
  triggerUpload :: bool
  triggered :: bool
  stage :: stage
  awaiting_params :: nat

record props =
  onChangeStatus :: bool
  onUploadReady :: bool
  getUploadParams :: bool
  onCancel :: bool
  onRemove :: bool
  previewTypes :: "string list option"
  allowedTypePrefixes :: "string list option"
  maxSizeBytes :: int
  maxFiles :: int

text \<open>
  What the component does to its host. \<open>XhrAbort\<close> records the call of
  \<^verbatim>\<open>xhr.abort()\<close>; the \<^verbatim>\<open>readystatechange\<close> with status 0 that an abort of a
  running request fires is an event of its own. \<open>TypeError\<close> records the exception that
  ends \<^verbatim>\<open>componentWillUnmount\<close>, \<open>RangeError\<close> the one that ends \<^verbatim>\<open>handleFile\<close> and
  rejects its promise.
\<close>

datatype effect =
    OnChangeStatus ref status
  | ForceUpdate
  | OnUploadReady ref
  | GetUploadParams ref
  | OnCancel ref
  | OnRemove ref
  | CreateObjectURL object_url ref
  | RevokeObjectURL object_url
  | XhrOpen xid string string
  | SetRequestHeader xid string string
  | XhrSend xid ref "(string \<times> string) list"
  | XhrAbort xid
  | TypeError
  | RangeError

text \<open>
  \<open>id_counter\<close> is the module-level \<^verbatim>\<open>let id = 0\<close>; \<open>xhrs\<close> gives, for every
  \<^verbatim>\<open>XMLHttpRequest\<close> created, the entry its listeners have captured; \<open>urls\<close> counts
  the object URLs created.
\<close>

record state =
  id_counter :: nat
  files :: "ref list"
  heap :: "fileWithMeta list"
  xhrs :: "ref list"
  urls :: nat
  trace :: "effect list"

definition init :: state where
  "init = \<lparr> id_counter = 0, files = [], heap = [], xhrs = [], urls = 0, trace = [] \<rparr>"

subsection \<open>Handlers\<close>

definition upd :: "ref \<Rightarrow> (fileWithMeta \<Rightarrow> fileWithMeta) \<Rightarrow> state \<Rightarrow> state" where
  "upd r f s = s\<lparr> heap := (heap s)[r := f (heap s ! r)] \<rparr>"

definition emit :: "effect list \<Rightarrow> state \<Rightarrow> state" where
  "emit es s = s\<lparr> trace := trace s @ es \<rparr>"

definition set_status :: "ref \<Rightarrow> status \<Rightarrow> state \<Rightarrow> state" where
  "set_status r st = upd r (\<lambda>e. e\<lparr> meta := (meta e)\<lparr> status := st \<rparr> \<rparr>)"

definition set_stage :: "ref \<Rightarrow> stage \<Rightarrow> state \<Rightarrow> state" where
  "set_stage r g = upd r (\<lambda>e. e\<lparr> stage := g \<rparr>)"

definition forceUpdate :: "state \<Rightarrow> state" where
  "forceUpdate s = emit [ForceUpdate] s"

definition handleChangeStatus :: "props \<Rightarrow> ref \<Rightarrow> state \<Rightarrow> state" where
  "handleChangeStatus p r s =
     (if \<not> onChangeStatus p then s
      else emit [OnChangeStatus r (status (meta (heap s ! r)))] s)"

definition handleCancel :: "props \<Rightarrow> nat \<Rightarrow> state \<Rightarrow> state" where
  "handleCancel p i s =
     (case findIndex (\<lambda>r. id_m (meta (heap s ! r)) = i) (files s) of
        None \<Rightarrow> s
      | Some index \<Rightarrow>
          (case xhr (heap s ! (files s ! index)) of
             None \<Rightarrow> s
           | Some x \<Rightarrow>
               emit [XhrAbort x]
                 (if onCancel p then emit [OnCancel (files s ! index)] s else s)))"

definition handleRemove :: "props \<Rightarrow> nat \<Rightarrow> state \<Rightarrow> state" where
  "handleRemove p i s =
     (case findIndex (\<lambda>r. id_m (meta (heap s ! r)) = i) (files s) of
        None \<Rightarrow> s
      | Some index \<Rightarrow>
          forceUpdate
            ((if onRemove p then emit [OnRemove (files s ! index)] s else s)
               \<lparr> files := splice1 index (files s) \<rparr>))"

text \<open>
  \<^verbatim>\<open>componentWillUnmount\<close>: \<^verbatim>\<open>file.xhr.abort()\<close> on an entry that is uploading
  and has no \<^verbatim>\<open>xhr\<close> yet throws, which ends the loop.
\<close>

fun unmount_loop :: "fileWithMeta list \<Rightarrow> ref list \<Rightarrow> effect list" where
  "unmount_loop h [] = []"
| "unmount_loop h (r # rs) =
     (if status (meta (h ! r)) = Uploading
      then (case xhr (h ! r) of
              None \<Rightarrow> [TypeError]
            | Some x \<Rightarrow> XhrAbort x # unmount_loop h rs)
      else unmount_loop h rs)"

definition componentWillUnmount :: "state \<Rightarrow> state" where
  "componentWillUnmount s = emit (unmount_loop (heap s) (files s)) s"

subsection \<open>Preview generation\<close>

text \<open>
  \<^verbatim>\<open>generatePreview\<close> from the end of one media block to its next \<^verbatim>\<open>await\<close> or to
  its return. The last statement of the \<^verbatim>\<open>try\<close> block revokes the object URL, whatever
  the kind of the file.
\<close>

definition after_video :: "ref \<Rightarrow> object_url \<Rightarrow> state \<Rightarrow> state" where
  "after_video r u s = set_stage r AwaitPreview (forceUpdate (emit [RevokeObjectURL u] s))"

definition after_audio :: "ref \<Rightarrow> object_url \<Rightarrow> string \<Rightarrow> string list \<Rightarrow> state \<Rightarrow> state" where
  "after_audio r u t pt s =
     (if startsWith t ''video/'' \<and> ''video'' \<in> set pt
      then set_stage r (AwaitDecode Video u t pt) s
      else after_video r u s)"

definition after_image :: "ref \<Rightarrow> object_url \<Rightarrow> string \<Rightarrow> string list \<Rightarrow> state \<Rightarrow> state" where
  "after_image r u t pt s =
     (if startsWith t ''audio/'' \<and> ''audio'' \<in> set pt
      then set_stage r (AwaitDecode Audio u t pt) s
      else after_audio r u t pt s)"

text \<open>
  \<^verbatim>\<open>generatePreview\<close> up to its first \<^verbatim>\<open>await\<close>. With \<^verbatim>\<open>previewTypes\<close> null the
  first \<^verbatim>\<open>previewTypes.includes\<close> throws inside the \<^verbatim>\<open>try\<close> block, and the
  \<^verbatim>\<open>catch\<close> block revokes the URL.
\<close>

definition generatePreview :: "props \<Rightarrow> ref \<Rightarrow> state \<Rightarrow> state" where
  "generatePreview p r s =
     (let t = type_m (meta (heap s ! r));
          isImage = startsWith t ''image/'';
          isAudio = startsWith t ''audio/'';
          isVideo = startsWith t ''video/''
      in if \<not> isImage \<and> \<not> isAudio \<and> \<not> isVideo then set_stage r AwaitPreview s
         else
           let objectUrl = urls s;
               s1 = emit [CreateObjectURL objectUrl r] (s\<lparr> urls := Suc (urls s) \<rparr>)
           in case previewTypes p of
                None \<Rightarrow>
                  set_stage r AwaitPreview (forceUpdate (emit [RevokeObjectURL objectUrl] s1))
              | Some pt \<Rightarrow>
                  if isImage \<and> ''image'' \<in> set pt
                  then upd r (\<lambda>e. e\<lparr> meta := (meta e)\<lparr> previewUrl := Some objectUrl \<rparr>,
                                       stage := AwaitDecode Image objectUrl t pt \<rparr>) s1
                  else after_image r objectUrl t pt s1)"

text \<open>What the decoder hands over when its \<^verbatim>\<open>onload\<close> or \<^verbatim>\<open>onloadedmetadata\<close> fires.\<close>

record media =
  el_width :: nat
  el_height :: nat
  el_duration :: rat
  el_videoWidth :: nat
  el_videoHeight :: nat

text \<open>The continuation of \<^verbatim>\<open>generatePreview\<close> after the awaited callback.\<close>

definition generatePreview_resume :: "ref \<Rightarrow> media \<Rightarrow> state \<Rightarrow> state" where
  "generatePreview_resume r md s =
     (case stage (heap s ! r) of
        AwaitDecode Image u t pt \<Rightarrow>
          after_image r u t pt
            (upd r (\<lambda>e. e\<lparr> meta := (meta e)\<lparr> width := Some (el_width md),
                                                height := Some (el_height md) \<rparr> \<rparr>) s)
      | AwaitDecode Audio u t pt \<Rightarrow>
          after_audio r u t pt
            (upd r (\<lambda>e. e\<lparr> meta := (meta e)\<lparr> duration := Some (el_duration md) \<rparr> \<rparr>) s)
      | AwaitDecode Video u t pt \<Rightarrow>
          after_video r u
            (upd r (\<lambda>e. e\<lparr> meta := (meta e)\<lparr> duration := Some (el_duration md),
                                                videoWidth := Some (el_videoWidth md),
                                                videoHeight := Some (el_videoHeight md) \<rparr> \<rparr>) s)
      | _ \<Rightarrow> s)"

subsection \<open>Upload\<close>

text \<open>\<^verbatim>\<open>uploadFile\<close> up to \<^verbatim>\<open>await getUploadParams(fileWithMeta)\<close>.\<close>

definition uploadFile :: "ref \<Rightarrow> state \<Rightarrow> state" where
  "uploadFile r s =
     upd r (\<lambda>e. e\<lparr> awaiting_params := Suc (awaiting_params e) \<rparr>) (emit [GetUploadParams r] s)"

text \<open>
  The rest of \<^verbatim>\<open>uploadFile\<close>, with the value the provider resolved to (\<open>None\<close> for
  \<^verbatim>\<open>undefined\<close> or \<^verbatim>\<open>null\<close>). The listeners it registers are \<open>on_progress\<close> and
  \<open>on_readystatechange\<close> below.
\<close>

definition uploadFile_resume :: "props \<Rightarrow> ref \<Rightarrow> params option \<Rightarrow> state \<Rightarrow> state" where
  "uploadFile_resume p r res s =
     (let s0 = upd r (\<lambda>e. e\<lparr> awaiting_params := awaiting_params e - 1 \<rparr>) s;
          ps = (case res of None \<Rightarrow> no_params | Some q \<Rightarrow> q)
      in case (case url ps of None \<Rightarrow> None | Some u \<Rightarrow> if u = [] then None else Some u) of
           None \<Rightarrow> forceUpdate (handleChangeStatus p r (set_status r Error_upload_params s0))
         | Some u \<Rightarrow>
             let x = length (xhrs s0);
                 m = (case http_method ps of None \<Rightarrow> ''POST'' | Some v \<Rightarrow> v);
                 s1 = emit ([XhrOpen x m u,
                             SetRequestHeader x ''X-Requested-With'' ''XMLHttpRequest'']
                            @ map (\<lambda>(h, v). SetRequestHeader x h v) (headers ps))
                        (s0\<lparr> xhrs := xhrs s0 @ [r] \<rparr>);
                 s2 = upd r (\<lambda>e. e\<lparr> meta := spread (meta e) (extraMeta ps) \<rparr>) s1;
                 s3 = emit [XhrSend x r (fields_p ps)] s2
             in upd r (\<lambda>e. e\<lparr> xhr := Some x \<rparr>) s3)"

text \<open>
  \<^verbatim>\<open>uploadFile\<close> ends without a request when its promise is rejected before it changes
  anything: the provider rejects or throws, or the transport refuses \<^verbatim>\<open>open\<close> or a
  header.
\<close>

definition uploadFile_reject :: "ref \<Rightarrow> state \<Rightarrow> state" where
  "uploadFile_reject r s = upd r (\<lambda>e. e\<lparr> awaiting_params := awaiting_params e - 1 \<rparr>) s"

text \<open>The listener of \<^verbatim>\<open>progress\<close> on \<^verbatim>\<open>xhr.upload\<close>.\<close>

definition on_progress :: "xid \<Rightarrow> nat \<Rightarrow> nat \<Rightarrow> state \<Rightarrow> state" where
  "on_progress x loaded tot s =
     (let r = xhrs s ! x
      in forceUpdate
           (upd r (\<lambda>e. e\<lparr> meta := (meta e)\<lparr> percent :=
                        js_or (js_div (loaded * 100) tot) (Finite 100) \<rparr> \<rparr>) s))"

text \<open>The listener of \<^verbatim>\<open>readystatechange\<close>, with \<^verbatim>\<open>xhr.readyState\<close> and \<^verbatim>\<open>xhr.status\<close>.\<close>

definition on_readystatechange :: "props \<Rightarrow> xid \<Rightarrow> nat \<Rightarrow> nat \<Rightarrow> state \<Rightarrow> state" where
  "on_readystatechange p x readyState st s =
     (let r = xhrs s ! x
      in if readyState \<noteq> 2 \<and> readyState \<noteq> 4 then s
         else if st = 0
         then forceUpdate (handleChangeStatus p r (set_status r Aborted s))
         else if st < 400
         then
           let s1 = upd r (\<lambda>e. e\<lparr> meta := (meta e)\<lparr> percent := Finite 100 \<rparr> \<rparr>) s;
               s2 = (if readyState = 2 then set_status r Headers_received s1 else s1);
               s3 = (if readyState = 4 then set_status r Done s2 else s2)
           in forceUpdate (handleChangeStatus p r s3)
         else forceUpdate (handleChangeStatus p r (set_status r Error_upload s)))"

subsection \<open>Intake\<close>

text \<open>The closure \<^verbatim>\<open>triggerUpload\<close> of \<^verbatim>\<open>handleFile\<close>.\<close>

definition triggerUpload_fn :: "props \<Rightarrow> ref \<Rightarrow> state \<Rightarrow> state" where
  "triggerUpload_fn p r s =
     (if triggered (heap s ! r) then s
      else
        let s1 = upd r (\<lambda>e. e\<lparr> triggered := True \<rparr>) s;
            s2 = (if getUploadParams p
                  then set_status r Uploading (uploadFile r s1)
                  else set_status r Done s1)
        in forceUpdate (handleChangeStatus p r s2))"

text \<open>
  \<^verbatim>\<open>handleFile\<close> up to \<^verbatim>\<open>await this.generatePreview(fileWithMeta)\<close>, with the value
  of \<^verbatim>\<open>new Date().toISOString()\<close>. \<open>new_entry\<close> is the \<^verbatim>\<open>fileWithMeta\<close> object it
  makes, which it does only for a timestamp that \<^verbatim>\<open>toISOString\<close> takes.
\<close>

definition new_entry :: "raw_file \<Rightarrow> string \<Rightarrow> nat \<Rightarrow> fileWithMeta" where
  "new_entry f now i =
     \<lparr> file_obj = f,
       meta = \<lparr> name = file_name f, size_m = file_size f, type_m = file_type f,
                lastModifiedDate =
                  (case lastModified f of
                     None \<Rightarrow> Undefined
                   | Some t \<Rightarrow> if t = 0 then Zero else IsoDate t),
                uploadedDate = now, status = Preparing, percent = Finite 0, id_m = i,
                previewUrl = None, width = None, height = None, duration = None,
                videoWidth = None, videoHeight = None \<rparr>,
       xhr = None, triggerUpload = False, triggered = False, stage = Returned,
       awaiting_params = 0 \<rparr>"

text \<open>The two guards at the head of \<^verbatim>\<open>handleFile\<close>.\<close>

definition rejected :: "props \<Rightarrow> raw_file \<Rightarrow> state \<Rightarrow> bool" where
  "rejected p f s =
     ((case allowedTypePrefixes p of
         None \<Rightarrow> False
       | Some ps \<Rightarrow> \<not> list_ex (\<lambda>x. startsWith (file_type f) x) ps)
      \<or> int (length (files s)) \<ge> maxFiles p)"

text \<open>
  \<^verbatim>\<open>new Date(lastModified).toISOString()\<close> throws a \<^verbatim>\<open>RangeError\<close> when the time
  value is beyond 8.64e15 milliseconds on either side of the epoch. This is after the two
  guards and before the entry is made: nothing is pushed, nobody is notified and the
  counter keeps its value.
\<close>

definition toISOString_throws :: "raw_file \<Rightarrow> bool" where
  "toISOString_throws f =
     (case lastModified f of
        None \<Rightarrow> False
      | Some t \<Rightarrow> t \<noteq> 0 \<and> (t < - 8640000000000000 \<or> 8640000000000000 < t))"

definition handleFile :: "props \<Rightarrow> raw_file \<Rightarrow> string \<Rightarrow> state \<Rightarrow> state" where
  "handleFile p f now s =
     (if (case allowedTypePrefixes p of
            None \<Rightarrow> False
          | Some ps \<Rightarrow> \<not> list_ex (\<lambda>x. startsWith (file_type f) x) ps) then s
      else if int (length (files s)) \<ge> maxFiles p then s
      else if toISOString_throws f then emit [RangeError] s
      else
        let r = length (heap s);
            s1 = s\<lparr> heap := heap s @ [new_entry f now (id_counter s)],
                    files := files s @ [r] \<rparr>;
            s2 = forceUpdate (handleChangeStatus p r s1);
            s3 = s2\<lparr> id_counter := id_counter s2 + 1 \<rparr>
        in if int (file_size f) > maxSizeBytes p
           then forceUpdate (handleChangeStatus p r (set_status r Error_file_size s3))
           else generatePreview p r s3)"

text \<open>
  The rest of \<^verbatim>\<open>handleFile\<close>, after the promise of \<^verbatim>\<open>generatePreview\<close> is resolved.
  \<open>calls\<close> is the number of times \<^verbatim>\<open>onUploadReady\<close> calls
  \<^verbatim>\<open>fileWithMeta.triggerUpload()\<close> itself, \<open>delay\<close> says that it returns an object
  with \<^verbatim>\<open>delayUpload === true\<close>.
\<close>

definition handleFile_resume :: "props \<Rightarrow> ref \<Rightarrow> nat \<Rightarrow> bool \<Rightarrow> state \<Rightarrow> state" where
  "handleFile_resume p r calls delay s =
     (let s1 = upd r (\<lambda>e. e\<lparr> triggered := False, stage := Returned \<rparr>) s
      in if onUploadReady p
         then
           let s2 = upd r (\<lambda>e. e\<lparr> triggerUpload := True \<rparr>) s1;
               s3 = ((triggerUpload_fn p r) ^^ calls) (emit [OnUploadReady r] s2)
           in if delay then s3 else triggerUpload_fn p r s3
         else triggerUpload_fn p r s1)"

text \<open>\<^verbatim>\<open>handleFiles\<close>: \<^verbatim>\<open>files.forEach(this.handleFile)\<close>, each file with its clock value.\<close>

definition handleFiles :: "props \<Rightarrow> (raw_file \<times> string) list \<Rightarrow> state \<Rightarrow> state" where
  "handleFiles p fs s = fold (\<lambda>(f, now). handleFile p f now) fs s"

subsection \<open>Events\<close>

text \<open>
  What can happen to the component. An event that names an object takes effect only if
  the object exists and waits for it: a decoder callback needs a suspended
  \<^verbatim>\<open>generatePreview\<close>, \<open>TriggerUpload\<close> needs the closure on the entry, the resolution of
  the upload parameters needs a waiting \<^verbatim>\<open>uploadFile\<close>, a transport event needs its
  \<^verbatim>\<open>XMLHttpRequest\<close>. A decoder error has no listener.
\<close>

datatype event =
    HandleFile raw_file string
  | MediaLoaded ref media
  | MediaError ref
  | PreviewSettled ref nat bool
  | TriggerUpload ref
  | ParamsResolved ref "params option"
  | ParamsRejected ref
  | Progress xid nat nat
  | ReadyStateChange xid nat nat
  | Cancel nat
  | Remove nat
  | Unmount

fun step :: "props \<Rightarrow> event \<Rightarrow> state \<Rightarrow> state" where
  "step p (HandleFile f now) s = handleFile p f now s"
| "step p (MediaLoaded r md) s =
     (if r < length (heap s) then generatePreview_resume r md s else s)"
| "step p (MediaError r) s = s"
| "step p (PreviewSettled r calls delay) s =
     (if r < length (heap s) \<and> stage (heap s ! r) = AwaitPreview
      then handleFile_resume p r calls delay s else s)"
| "step p (TriggerUpload r) s =
     (if r < length (heap s) \<and> triggerUpload (heap s ! r)
      then triggerUpload_fn p r s else s)"
| "step p (ParamsResolved r res) s =
     (if r < length (heap s) \<and> 0 < awaiting_params (heap s ! r)
      then uploadFile_resume p r res s else s)"
| "step p (ParamsRejected r) s =
     (if r < length (heap s) \<and> 0 < awaiting_params (heap s ! r)
      then uploadFile_reject r s else s)"
| "step p (Progress x loaded tot) s =
     (if x < length (xhrs s) then on_progress x loaded tot s else s)"
| "step p (ReadyStateChange x readyState st) s =
     (if x < length (xhrs s) then on_readystatechange p x readyState st s else s)"
| "step p (Cancel i) s = handleCancel p i s"
| "step p (Remove i) s = handleRemove p i s"
| "step p Unmount s = componentWillUnmount s"

fun run :: "props \<Rightarrow> event list \<Rightarrow> state \<Rightarrow> state" where
  "run p [] s = s"
| "run p (e # es) s = run p es (step p e s)"

section \<open>What the properties speak about\<close>

subsection \<open>Counting effects\<close>

text \<open>
  \<open>requests r tr\<close> is the number of transport requests sent for the entry \<open>r\<close> in the
  trace \<open>tr\<close>, \<open>previews r tr\<close> the number of object URLs created for it, and
  \<open>notified p r st\<close> is what \<^verbatim>\<open>handleChangeStatus\<close> adds to the trace when the
  entry \<open>r\<close> has the status \<open>st\<close>.
\<close>

fun is_request :: "ref \<Rightarrow> effect \<Rightarrow> bool" where
  "is_request r (XhrSend x r' f) = (r' = r)"
| "is_request r _ = False"

fun is_preview :: "ref \<Rightarrow> effect \<Rightarrow> bool" where
  "is_preview r (CreateObjectURL u r') = (r' = r)"
| "is_preview r _ = False"

definition requests :: "ref \<Rightarrow> effect list \<Rightarrow> nat" where
  "requests r tr = length (filter (is_request r) tr)"

definition previews :: "ref \<Rightarrow> effect list \<Rightarrow> nat" where
  "previews r tr = length (filter (is_preview r) tr)"

definition notified :: "props \<Rightarrow> ref \<Rightarrow> status \<Rightarrow> effect list" where
  "notified p r st = (if onChangeStatus p then [OnChangeStatus r st] else [])"

subsection \<open>Events and the entries they write to\<close>

text \<open>
  \<open>touches e s\<close> is the entry whose closure, continuation or listener the event \<open>e\<close>
  runs. An event with \<open>patches_id r\<close> resolves the upload parameters of the entry \<open>r\<close> to
  a value whose \<^verbatim>\<open>meta\<close> object has the key \<^verbatim>\<open>id\<close>.
\<close>

fun touches :: "event \<Rightarrow> state \<Rightarrow> ref option" where
  "touches (MediaLoaded r md) s = Some r"
| "touches (PreviewSettled r calls delay) s = Some r"
| "touches (TriggerUpload r) s = Some r"
| "touches (ParamsResolved r res) s = Some r"
| "touches (ParamsRejected r) s = Some r"
| "touches (Progress x l t) s = (if x < length (xhrs s) then Some (xhrs s ! x) else None)"
| "touches (ReadyStateChange x rs st) s = (if x < length (xhrs s) then Some (xhrs s ! x) else None)"
| "touches _ s = None"

fun patches_id :: "ref \<Rightarrow> event \<Rightarrow> bool" where
  "patches_id r (ParamsResolved r' (Some q)) = (r' = r \<and> x_id (extraMeta q) \<noteq> None)"
| "patches_id r _ = False"

text \<open>
  \<open>registered p f now s\<close> is the state of \<^verbatim>\<open>handleFile\<close> after \<^verbatim>\<open>id += 1\<close>, for
  a file that is not rejected.
\<close>

definition registered :: "props \<Rightarrow> raw_file \<Rightarrow> string \<Rightarrow> state \<Rightarrow> state" where
  "registered p f now s =
     (let r = length (heap s);
          s1 = s\<lparr> heap := heap s @ [new_entry f now (id_counter s)],
                  files := files s @ [r] \<rparr>;
          s2 = forceUpdate (handleChangeStatus p r s1)
      in s2\<lparr> id_counter := id_counter s2 + 1 \<rparr>)"

subsection \<open>Invariants\<close>

text \<open>
  \<open>frame r s s'\<close>: between \<open>s\<close> and \<open>s'\<close> nothing has happened to an entry other than
  \<open>r\<close>. \<open>same_control\<close> and \<open>keeps\<close> compare two versions of one entry.
\<close>

definition frame :: "ref \<Rightarrow> state \<Rightarrow> state \<Rightarrow> bool" where
  "frame r' s s' \<longleftrightarrow>
     length (heap s') = length (heap s)
     \<and> (\<forall>r. r \<noteq> r' \<longrightarrow> heap s' ! r = heap s ! r
            \<and> requests r (trace s') = requests r (trace s)
            \<and> previews r (trace s') = previews r (trace s))
     \<and> set (xhrs s') \<subseteq> insert r' (set (xhrs s))
     \<and> set (xhrs s) \<subseteq> set (xhrs s')
     \<and> set (files s') \<subseteq> set (files s)
     \<and> id_counter s' = id_counter s"

definition same_control :: "fileWithMeta \<Rightarrow> fileWithMeta \<Rightarrow> bool" where
  "same_control e' e \<longleftrightarrow>
     stage e' = stage e \<and> awaiting_params e' = awaiting_params e \<and> triggered e' = triggered e
     \<and> triggerUpload e' = triggerUpload e \<and> xhr e' = xhr e \<and> file_obj e' = file_obj e"

definition keeps :: "fileWithMeta \<Rightarrow> fileWithMeta \<Rightarrow> bool" where
  "keeps e' e \<longleftrightarrow> id_m (meta e') = id_m (meta e)"

text \<open>
  What holds of every entry in every state the component can reach: as long as
  \<^verbatim>\<open>handleFile\<close> has not returned, the closure is not on the entry, no
  \<^verbatim>\<open>uploadFile\<close> waits, no request has been sent and there is no handle; the requests
  sent and the calls of \<^verbatim>\<open>uploadFile\<close> that wait are one at most together, and none
  before the closure has run; an entry has a handle exactly when a request has been sent
  for it.
  \<open>wf_state\<close> adds that the lists and the trace name existing entries only.
\<close>

definition entry_ok :: "state \<Rightarrow> ref \<Rightarrow> bool" where
  "entry_ok s r \<longleftrightarrow>
     (stage (heap s ! r) \<noteq> Returned \<longrightarrow>
        \<not> triggerUpload (heap s ! r) \<and> awaiting_params (heap s ! r) = 0
        \<and> requests r (trace s) = 0 \<and> xhr (heap s ! r) = None)
     \<and> (triggered (heap s ! r) \<longrightarrow> requests r (trace s) + awaiting_params (heap s ! r) \<le> 1)
     \<and> (\<not> triggered (heap s ! r) \<longrightarrow>
          requests r (trace s) = 0 \<and> awaiting_params (heap s ! r) = 0)
     \<and> (xhr (heap s ! r) = None) = (requests r (trace s) = 0)"

definition wf_state :: "state \<Rightarrow> bool" where
  "wf_state s \<longleftrightarrow>
     (\<forall>r < length (heap s). entry_ok s r)
     \<and> (\<forall>r \<ge> length (heap s). requests r (trace s) = 0 \<and> previews r (trace s) = 0)
     \<and> (\<forall>r \<in> set (xhrs s). r < length (heap s))
     \<and> (\<forall>r \<in> set (files s). r < length (heap s))"

text \<open>
  An entry is \<open>settled\<close> when nothing waits for it any more: \<^verbatim>\<open>handleFile\<close> has
  returned, no \<^verbatim>\<open>uploadFile\<close> waits, and the closure has run or is out of reach.
\<close>

definition settled :: "ref \<Rightarrow> state \<Rightarrow> bool" where
  "settled r s \<longleftrightarrow>
     r < length (heap s) \<and> stage (heap s ! r) = Returned \<and> awaiting_params (heap s ! r) = 0
     \<and> (triggered (heap s ! r) \<or> \<not> triggerUpload (heap s ! r))"

subsection \<open>Inputs for the examples\<close>

text \<open>
  A component with a limit of 100 bytes and 5 files, a text file, an image and an audio
  file of 10 bytes, a file of 200 bytes last modified on 1 November 2018, and upload
  parameters with a destination.
\<close>

definition props_demo :: props where
  "props_demo =
     \<lparr> onChangeStatus = True, onUploadReady = False, getUploadParams = True,
       onCancel = True, onRemove = True,
       previewTypes = Some [''image'', ''audio'', ''video''],
       allowedTypePrefixes = None, maxSizeBytes = 100, maxFiles = 5 \<rparr>"


definition props_images :: props where
  "props_images = props_demo\<lparr> allowedTypePrefixes := Some [''image/''] \<rparr>"

definition clock :: string where
  "clock = ''2018-11-01T00:00:00.000Z''"

definition png_file :: raw_file where
  "png_file = \<lparr> file_name = ''a.png'', file_size = 10, file_type = ''image/png'',
                 lastModified = Some 1 \<rparr>"

definition mp3_file :: raw_file where
  "mp3_file = \<lparr> file_name = ''a.mp3'', file_size = 10, file_type = ''audio/mpeg'',
                 lastModified = None \<rparr>"

definition text_file :: raw_file where
  "text_file = \<lparr> file_name = ''a.txt'', file_size = 10, file_type = ''text/plain'',
                  lastModified = None \<rparr>"

definition big_file :: raw_file where
  "big_file = \<lparr> file_name = ''b.bin'', file_size = 200,
                 file_type = ''application/octet-stream'',
                 lastModified = Some 1541030400000 \<rparr>"

definition png_media :: media where
  "png_media = \<lparr> el_width = 640, el_height = 480, el_duration = 0, el_videoWidth = 0,
                  el_videoHeight = 0 \<rparr>"

definition url_params :: params where
  "url_params = \<lparr> fields_p = [], headers = [], extraMeta = no_patch, http_method = None,
                   url = Some ''https://x/up'' \<rparr>"

definition id_params :: params where
  "id_params = url_params\<lparr> extraMeta := no_patch\<lparr> x_id := Some 0 \<rparr> \<rparr>"

text \<open>
  \<open>s_awaiting\<close>: a text file is accepted and its upload waits for the parameters;
  \<open>s_uploading\<close>: the request is sent; \<open>s_done\<close>: the transport has answered 200, first
  with the headers, then with the whole response; \<open>s_deferred\<close>: the host has asked to
  delay the upload and holds the closure; \<open>s_dup\<close>: of two files, the second has upload
  parameters whose \<^verbatim>\<open>meta\<close> is \<^verbatim>\<open>{ id: 0 }\<close>; \<open>patched_events\<close>: after that, the
  first entry is removed and a third file is accepted.
\<close>

definition awaiting_events :: "event list" where
  "awaiting_events = [HandleFile text_file clock, PreviewSettled 0 0 False]"

definition s_awaiting :: state where
  "s_awaiting = run props_demo awaiting_events init"

definition upload_events :: "event list" where
  "upload_events =
     [HandleFile text_file clock, PreviewSettled 0 0 False, ParamsResolved 0 (Some url_params)]"

definition s_uploading :: state where
  "s_uploading = run props_demo upload_events init"





definition dup_events :: "event list" where
  "dup_events =
     [HandleFile text_file clock, HandleFile png_file clock, MediaLoaded 1 png_media,
      PreviewSettled 1 0 False, ParamsResolved 1 (Some id_params)]"

definition s_dup :: state where
  "s_dup = run props_demo dup_events init"

definition patched_events :: "event list" where
  "patched_events = dup_events @ [Remove 0, HandleFile mp3_file clock]"

section \<open>Basic facts\<close>

lemma upd_sel [simp]:
  "heap (upd r f s) = (heap s)[r := f (heap s ! r)]"
  "files (upd r f s) = files s"
  "trace (upd r f s) = trace s"
  "xhrs (upd r f s) = xhrs s"
  "urls (upd r f s) = urls s"
  "id_counter (upd r f s) = id_counter s"
  by (simp_all add: upd_def)

lemma emit_sel [simp]:
  "heap (emit es s) = heap s"
  "files (emit es s) = files s"
  "trace (emit es s) = trace s @ es"
  "xhrs (emit es s) = xhrs s"
  "urls (emit es s) = urls s"
  "id_counter (emit es s) = id_counter s"
  by (simp_all add: emit_def)

lemma requests_simps [simp]:
  "requests r [] = 0"
  "requests r (tr @ es) = requests r tr + requests r es"
  "requests r (e # es) = (if is_request r e then 1 else 0) + requests r es"
  by (simp_all add: requests_def)

lemma previews_simps [simp]:
  "previews r [] = 0"
  "previews r (tr @ es) = previews r tr + previews r es"
  "previews r (e # es) = (if is_preview r e then 1 else 0) + previews r es"
  by (simp_all add: previews_def)

lemma requests_headers [simp]:
  "requests r (map (\<lambda>(h, v). SetRequestHeader x h v) hs) = 0"
  by (induction hs) auto

lemma previews_headers [simp]:
  "previews r (map (\<lambda>(h, v). SetRequestHeader x h v) hs) = 0"
  by (induction hs) auto

lemma requests_notified [simp]: "requests r (notified p r' st) = 0"
  by (simp add: notified_def)

lemma previews_notified [simp]: "previews r (notified p r' st) = 0"
  by (simp add: notified_def)

lemma requests_unmount [simp]: "requests r (unmount_loop h rs) = 0"
  by (induction rs) (auto split: option.splits)

lemma previews_unmount [simp]: "previews r (unmount_loop h rs) = 0"
  by (induction rs) (auto split: option.splits)

lemmas prim_defs = set_status_def set_stage_def forceUpdate_def handleChangeStatus_def

lemma findIndex_None: "findIndex P xs = None \<longleftrightarrow> (\<forall>x \<in> set xs. \<not> P x)"
  by (induction xs) auto

lemma in_set_splice1: "x \<in> set (splice1 i xs) \<Longrightarrow> x \<in> set xs"
  unfolding splice1_def using set_take_subset [of i xs] set_drop_subset [of "Suc i" xs] by auto

subsection \<open>The closure runs once\<close>

lemma trigger_again: "triggered (heap s ! r) \<Longrightarrow> triggerUpload_fn p r s = s"
  by (simp add: triggerUpload_fn_def)

lemma trigger_sets: "r < length (heap s) \<Longrightarrow> triggered (heap (triggerUpload_fn p r s) ! r)"
  by (simp add: triggerUpload_fn_def uploadFile_def prim_defs Let_def)

lemma trigger_length [simp]: "length (heap (triggerUpload_fn p r s)) = length (heap s)"
  by (simp add: triggerUpload_fn_def uploadFile_def prim_defs Let_def)

lemma trigger_funpow:
  "r < length (heap s) \<Longrightarrow> (triggerUpload_fn p r ^^ Suc n) s = triggerUpload_fn p r s"
proof (induction n)
  case 0
  then show ?case by simp
next
  case (Suc n)
  have "(triggerUpload_fn p r ^^ Suc (Suc n)) s = triggerUpload_fn p r ((triggerUpload_fn p r ^^ Suc n) s)"
    by simp
  also have "\<dots> = triggerUpload_fn p r (triggerUpload_fn p r s)"
    using Suc by simp
  also have "\<dots> = triggerUpload_fn p r s"
    using Suc.prems by (intro trigger_again trigger_sets)
  finally show ?case .
qed

lemma handleFile_resume_eq:
  assumes "r < length (heap s)"
  shows "handleFile_resume p r calls delay s =
     (let s1 = upd r (\<lambda>e. e\<lparr> triggered := False, stage := Returned \<rparr>) s;
          b = (if onUploadReady p
               then emit [OnUploadReady r] (upd r (\<lambda>e. e\<lparr> triggerUpload := True \<rparr>) s1)
               else s1)
      in if onUploadReady p \<and> calls = 0 \<and> delay then b else triggerUpload_fn p r b)"
proof (cases calls)
  case 0
  then show ?thesis by (simp add: handleFile_resume_def Let_def)
next
  case (Suc n)
  let ?b = "emit [OnUploadReady r] (upd r (\<lambda>e. e\<lparr> triggerUpload := True \<rparr>)
              (upd r (\<lambda>e. e\<lparr> triggered := False, stage := Returned \<rparr>) s))"
  have len: "r < length (heap ?b)" using assms by simp
  have 1: "(triggerUpload_fn p r ^^ calls) ?b = triggerUpload_fn p r ?b"
    unfolding Suc by (rule trigger_funpow [OF len])
  have 2: "triggerUpload_fn p r (triggerUpload_fn p r ?b) = triggerUpload_fn p r ?b"
    by (intro trigger_again trigger_sets len)
  show ?thesis
    using 1 2 Suc by (simp add: handleFile_resume_def Let_def)
qed



subsection \<open>Every piece of code writes to one entry\<close>

lemmas frame_simps = frame_def subset_insertI

lemma frame_trigger: "frame r s (triggerUpload_fn p r s)"
  by (simp add: frame_simps triggerUpload_fn_def uploadFile_def prim_defs Let_def)

lemma frame_preview_resume: "frame r s (generatePreview_resume r md s)"
  by (simp add: frame_simps generatePreview_resume_def after_image_def after_audio_def
      after_video_def prim_defs Let_def split: stage.splits kind.splits)

lemma frame_generatePreview: "frame r s (generatePreview p r s)"
  by (simp add: frame_simps generatePreview_def after_image_def after_audio_def
      after_video_def prim_defs Let_def split: option.splits)

lemma frame_handleFile_resume: "r < length (heap s) \<Longrightarrow> frame r s (handleFile_resume p r calls delay s)"
  by (simp add: handleFile_resume_eq frame_simps triggerUpload_fn_def uploadFile_def prim_defs Let_def)

lemma frame_uploadFile_resume: "frame r s (uploadFile_resume p r res s)"
  by (auto simp add: frame_simps uploadFile_resume_def prim_defs Let_def split: option.splits)

lemma frame_uploadFile_reject: "frame r s (uploadFile_reject r s)"
  by (simp add: frame_simps uploadFile_reject_def)

lemma frame_progress: "frame (xhrs s ! x) s (on_progress x l t s)"
  by (simp add: frame_simps on_progress_def prim_defs Let_def)

lemma frame_readystatechange: "frame (xhrs s ! x) s (on_readystatechange p x rs st s)"
  by (simp add: frame_simps on_readystatechange_def prim_defs Let_def)

lemma frame_cancel: "frame r s (handleCancel p i s)"
  by (simp add: frame_simps handleCancel_def split: option.splits)

lemma frame_remove: "frame r s (handleRemove p i s)"
  by (auto simp add: frame_simps handleRemove_def prim_defs split: option.splits dest: in_set_splice1)

lemma frame_unmount: "frame r s (componentWillUnmount s)"
  by (simp add: frame_simps componentWillUnmount_def)

lemma handleFile_eq:
  "handleFile p f now s =
     (if rejected p f s then s
      else if toISOString_throws f then emit [RangeError] s
      else if int (file_size f) > maxSizeBytes p
      then forceUpdate (handleChangeStatus p (length (heap s))
             (set_status (length (heap s)) Error_file_size (registered p f now s)))
      else generatePreview p (length (heap s)) (registered p f now s))"
  by (simp add: handleFile_def rejected_def registered_def Let_def)

lemma registered_sel [simp]:
  "heap (registered p f now s) = heap s @ [new_entry f now (id_counter s)]"
  "files (registered p f now s) = files s @ [length (heap s)]"
  "trace (registered p f now s) = trace s @ notified p (length (heap s)) Preparing @ [ForceUpdate]"
  "xhrs (registered p f now s) = xhrs s"
  "urls (registered p f now s) = urls s"
  "id_counter (registered p f now s) = Suc (id_counter s)"
  by (simp_all add: registered_def prim_defs notified_def new_entry_def Let_def)

lemma frame_size_error:
  "frame r s (forceUpdate (handleChangeStatus p r (set_status r Error_file_size s)))"
  by (simp add: frame_simps prim_defs)

lemma handleFile_frame:
  assumes "\<not> rejected p f s" "\<not> toISOString_throws f"
  shows "frame (length (heap s)) (registered p f now s) (handleFile p f now s)"
  using assms by (simp add: handleFile_eq frame_size_error frame_generatePreview)

lemma handleFile_refused:
  assumes "rejected p f s \<or> toISOString_throws f"
  shows "heap (handleFile p f now s) = heap s" "files (handleFile p f now s) = files s"
    "xhrs (handleFile p f now s) = xhrs s" "id_counter (handleFile p f now s) = id_counter s"
    "requests r (trace (handleFile p f now s)) = requests r (trace s)"
    "previews r (trace (handleFile p f now s)) = previews r (trace s)"
  using assms by (auto simp: handleFile_eq)

lemma frame_other:
  assumes "frame r' s s'" "r \<noteq> r'"
  shows "heap s' ! r = heap s ! r \<and> requests r (trace s') = requests r (trace s)
         \<and> previews r (trace s') = previews r (trace s)
         \<and> (r \<in> set (xhrs s') \<longrightarrow> r \<in> set (xhrs s))"
  using assms by (auto simp: frame_def)

lemma step_length: "length (heap s) \<le> length (heap (step p e s))"
proof (cases e)
  case (HandleFile f now)
  have "length (heap (registered p f now s)) = length (heap (handleFile p f now s))"
    if "\<not> rejected p f s" "\<not> toISOString_throws f"
    using handleFile_frame [OF that, of now] by (simp add: frame_def)
  then show ?thesis using HandleFile handleFile_refused(1) [of p f s now]
    by (cases "rejected p f s \<or> toISOString_throws f") auto
next
  case (MediaLoaded r md)
  then show ?thesis using frame_preview_resume [of r s md] by (simp add: frame_def)
next
  case (PreviewSettled r calls delay)
  then show ?thesis using frame_handleFile_resume [of r s p calls delay] by (simp add: frame_def)
next
  case (TriggerUpload r)
  then show ?thesis by simp
next
  case (ParamsResolved r res)
  then show ?thesis using frame_uploadFile_resume [of r s p res] by (simp add: frame_def)
next
  case (ParamsRejected r)
  then show ?thesis using frame_uploadFile_reject [of r s] by (simp add: frame_def)
next
  case (Progress x l t)
  then show ?thesis using frame_progress [of s x l t] by (simp add: frame_def)
next
  case (ReadyStateChange x rs st)
  then show ?thesis using frame_readystatechange [of s x p rs st] by (simp add: frame_def)
next
  case (Cancel i)
  then show ?thesis using frame_cancel [of 0 s p i] by (simp add: frame_def)
next
  case (Remove i)
  then show ?thesis using frame_remove [of 0 s p i] by (simp add: frame_def)
next
  case Unmount
  then show ?thesis by (simp add: componentWillUnmount_def)
qed simp


lemma step_other:
  assumes "r < length (heap s)" "touches e s \<noteq> Some r"
  shows "heap (step p e s) ! r = heap s ! r
         \<and> requests r (trace (step p e s)) = requests r (trace s)
         \<and> previews r (trace (step p e s)) = previews r (trace s)
         \<and> (r \<in> set (xhrs (step p e s)) \<longrightarrow> r \<in> set (xhrs s))"
proof (cases e)
  case (HandleFile f now)
  show ?thesis
  proof (cases "rejected p f s \<or> toISOString_throws f")
    case True
    then show ?thesis using HandleFile by (simp add: handleFile_refused)
  next
    case False
    then have a: "\<not> rejected p f s" "\<not> toISOString_throws f" by simp_all
    have "r \<noteq> length (heap s)" using assms(1) by simp
    from frame_other [OF handleFile_frame [OF a] this, of now] assms(1)
    show ?thesis using HandleFile by (simp add: nth_append)
  qed
next
  case (MediaLoaded r' md)
  then show ?thesis using assms frame_other [OF frame_preview_resume [of r' s md], of r] by auto
next
  case (MediaError r')
  then show ?thesis by simp
next
  case (PreviewSettled r' calls delay)
  then show ?thesis using assms frame_other [OF frame_handleFile_resume [of r' s p calls delay], of r]
    by auto
next
  case (TriggerUpload r')
  then show ?thesis using assms frame_other [OF frame_trigger [of r' s p], of r] by auto
next
  case (ParamsResolved r' res)
  then show ?thesis using assms frame_other [OF frame_uploadFile_resume [of r' s p res], of r] by auto
next
  case (ParamsRejected r')
  then show ?thesis using assms frame_other [OF frame_uploadFile_reject [of r' s], of r] by auto
next
  case (Progress x l t)
  then show ?thesis using assms frame_other [OF frame_progress [of s x l t], of r]
    by (auto split: if_splits)
next
  case (ReadyStateChange x rs st)
  then show ?thesis using assms frame_other [OF frame_readystatechange [of s x p rs st], of r]
    by (auto split: if_splits)
next
  case (Cancel i)
  then show ?thesis
    by (simp add: handleCancel_def split: option.splits)
next
  case (Remove i)
  then show ?thesis
    by (simp add: handleRemove_def prim_defs split: option.splits)
next
  case Unmount
  then show ?thesis by (simp add: componentWillUnmount_def)
qed

subsection \<open>The invariant of the reachable states\<close>

lemma entry_ok_cong:
  "heap s' ! r = heap s ! r \<Longrightarrow> requests r (trace s') = requests r (trace s)
   \<Longrightarrow> entry_ok s' r = entry_ok s r"
  by (simp add: entry_ok_def)

lemma wf_state_frame:
  assumes "wf_state s" "frame r' s s'" "r' < length (heap s)" "entry_ok s' r'"
  shows "wf_state s'"
proof -
  have len: "length (heap s') = length (heap s)"
    using assms(2) by (simp add: frame_def)
  have 1: "entry_ok s' r" if "r < length (heap s')" for r
  proof (cases "r = r'")
    case True
    then show ?thesis using assms(4) by simp
  next
    case False
    then have "entry_ok s' r = entry_ok s r"
      using assms(2) by (intro entry_ok_cong) (simp_all add: frame_def)
    then show ?thesis using assms(1) that len by (simp add: wf_state_def)
  qed
  have 2: "requests r (trace s') = 0 \<and> previews r (trace s') = 0"
    if "length (heap s') \<le> r" for r
  proof -
    have "length (heap s) \<le> r" "r \<noteq> r'"
      using that assms(3) len by simp_all
    then show ?thesis using assms(1,2) by (simp add: frame_def wf_state_def)
  qed
  have 3: "r < length (heap s')" if "r \<in> set (xhrs s')" for r
  proof -
    have "r = r' \<or> r \<in> set (xhrs s)" using that assms(2) by (auto simp: frame_def)
    then show ?thesis using assms(1,3) len by (auto simp: wf_state_def)
  qed
  have 4: "r < length (heap s')" if "r \<in> set (files s')" for r
  proof -
    have "r \<in> set (files s)" using that assms(2) by (auto simp: frame_def)
    then show ?thesis using assms(1) len by (auto simp: wf_state_def)
  qed
  show ?thesis
    unfolding wf_state_def using 1 2 3 4 by blast
qed

lemma wf_state_init: "wf_state init"
  by (simp add: wf_state_def init_def)

lemma wf_state_registered:
  assumes "wf_state s"
  shows "wf_state (registered p f now s)"
proof -
  have "entry_ok (registered p f now s) r" if "r < Suc (length (heap s))" for r
  proof (cases "r = length (heap s)")
    case True
    then show ?thesis using assms
      by (simp add: entry_ok_def new_entry_def wf_state_def)
  next
    case False
    then have "r < length (heap s)" using that by simp
    then show ?thesis using assms
      by (simp add: entry_ok_def wf_state_def nth_append)
  qed
  then show ?thesis
    using assms by (auto simp: wf_state_def less_Suc_eq)
qed

lemma entry_ok_size_error:
  "entry_ok s r \<Longrightarrow> r < length (heap s) \<Longrightarrow>
   entry_ok (forceUpdate (handleChangeStatus p r (set_status r Error_file_size s))) r"
  by (simp add: entry_ok_def prim_defs)

lemma entry_ok_generatePreview:
  assumes "r < length (heap s)" "\<not> triggerUpload (heap s ! r)" "awaiting_params (heap s ! r) = 0"
    "requests r (trace s) = 0" "xhr (heap s ! r) = None"
  shows "entry_ok (generatePreview p r s) r"
  using assms
  by (simp add: entry_ok_def generatePreview_def after_image_def after_audio_def
      after_video_def prim_defs Let_def split: option.splits)

lemma entry_ok_preview_resume:
  assumes "r < length (heap s)" "entry_ok s r"
  shows "entry_ok (generatePreview_resume r md s) r"
  using assms
  by (simp add: entry_ok_def generatePreview_resume_def after_image_def after_audio_def
      after_video_def prim_defs Let_def split: stage.splits kind.splits)

lemma entry_ok_handleFile_resume:
  assumes "r < length (heap s)" "entry_ok s r" "stage (heap s ! r) = AwaitPreview"
  shows "entry_ok (handleFile_resume p r calls delay s) r"
  using assms
  by (simp add: handleFile_resume_eq entry_ok_def triggerUpload_fn_def uploadFile_def
      prim_defs Let_def)

lemma entry_ok_trigger:
  assumes "r < length (heap s)" "entry_ok s r" "triggerUpload (heap s ! r)"
  shows "entry_ok (triggerUpload_fn p r s) r"
  using assms
  by (auto simp add: entry_ok_def triggerUpload_fn_def uploadFile_def prim_defs Let_def)

lemma entry_ok_uploadFile_resume:
  assumes "r < length (heap s)" "entry_ok s r" "0 < awaiting_params (heap s ! r)"
  shows "entry_ok (uploadFile_resume p r res s) r"
  using assms
  by (auto simp add: entry_ok_def uploadFile_resume_def prim_defs Let_def
      split: option.splits if_splits)

lemma entry_ok_uploadFile_reject:
  assumes "r < length (heap s)" "entry_ok s r" "0 < awaiting_params (heap s ! r)"
  shows "entry_ok (uploadFile_reject r s) r"
  using assms
  by (auto simp add: entry_ok_def uploadFile_reject_def split: if_splits)

lemma entry_ok_progress:
  assumes "xhrs s ! x < length (heap s)" "entry_ok s (xhrs s ! x)"
  shows "entry_ok (on_progress x l t s) (xhrs s ! x)"
  using assms by (simp add: entry_ok_def on_progress_def prim_defs Let_def)

lemma entry_ok_readystatechange:
  assumes "xhrs s ! x < length (heap s)" "entry_ok s (xhrs s ! x)"
  shows "entry_ok (on_readystatechange p x rs st s) (xhrs s ! x)"
  using assms by (simp add: entry_ok_def on_readystatechange_def prim_defs Let_def)

lemma wf_state_same_heap:
  assumes "wf_state s" "heap s' = heap s"
    "\<And>r. requests r (trace s') = requests r (trace s) \<and> previews r (trace s') = previews r (trace s)"
    "set (xhrs s') \<subseteq> set (xhrs s)" "set (files s') \<subseteq> set (files s)"
  shows "wf_state s'"
  using assms unfolding wf_state_def entry_ok_def by (simp add: subset_iff)

lemma wf_state_cancel:
  assumes "wf_state s"
  shows "wf_state (handleCancel p i s)"
  by (rule wf_state_same_heap [OF assms]) (auto simp: handleCancel_def split: option.splits)

lemma wf_state_remove:
  assumes "wf_state s"
  shows "wf_state (handleRemove p i s)"
  by (rule wf_state_same_heap [OF assms])
    (auto simp: handleRemove_def prim_defs split: option.splits dest: in_set_splice1)

lemma wf_state_unmount:
  assumes "wf_state s"
  shows "wf_state (componentWillUnmount s)"
  by (rule wf_state_same_heap [OF assms]) (auto simp: componentWillUnmount_def)

lemma wf_state_handleFile:
  assumes "wf_state s"
  shows "wf_state (handleFile p f now s)"
proof (cases "rejected p f s \<or> toISOString_throws f")
  case True
  show ?thesis
    by (rule wf_state_same_heap [OF assms]) (simp_all add: handleFile_refused [OF True])
next
  case False
  then have a: "\<not> rejected p f s" "\<not> toISOString_throws f" by simp_all
  let ?r = "length (heap s)" and ?g = "registered p f now s"
  have g: "wf_state ?g" using assms by (rule wf_state_registered)
  have r: "?r < length (heap ?g)" by simp
  have e: "entry_ok ?g ?r" using g r by (simp add: wf_state_def del: registered_sel)
  have n: "\<not> triggerUpload (heap ?g ! ?r)" "awaiting_params (heap ?g ! ?r) = 0"
    by (simp_all add: new_entry_def)
  have q: "requests ?r (trace ?g) = 0"
    using assms by (simp add: wf_state_def)
  have x: "xhr (heap ?g ! ?r) = None"
    by (simp add: new_entry_def)
  have "entry_ok (handleFile p f now s) ?r"
    using a entry_ok_size_error [OF e r] entry_ok_generatePreview [OF r n q x]
    by (simp add: handleFile_eq)
  with g handleFile_frame [OF a] r show ?thesis
    by (rule wf_state_frame)
qed

lemma wf_state_step: "wf_state s \<Longrightarrow> wf_state (step p e s)"
proof (cases e)
  case (HandleFile f now)
  assume "wf_state s" then show ?thesis using HandleFile by (simp add: wf_state_handleFile)
next
  case (MediaLoaded r md)
  assume i: "wf_state s"
  show ?thesis
  proof (cases "r < length (heap s)")
    case True
    then have "entry_ok s r" using i by (simp add: wf_state_def)
    then have "wf_state (generatePreview_resume r md s)"
      using True entry_ok_preview_resume by (intro wf_state_frame [OF i frame_preview_resume]) simp_all
    then show ?thesis using MediaLoaded True by simp
  qed (use MediaLoaded i in simp)
next
  case (MediaError r)
  assume "wf_state s" then show ?thesis using MediaError by simp
next
  case (PreviewSettled r calls delay)
  assume i: "wf_state s"
  show ?thesis
  proof (cases "r < length (heap s) \<and> stage (heap s ! r) = AwaitPreview")
    case True
    then have "entry_ok s r" using i by (simp add: wf_state_def)
    then have "wf_state (handleFile_resume p r calls delay s)"
      using True entry_ok_handleFile_resume by (intro wf_state_frame [OF i frame_handleFile_resume]) simp_all
    then show ?thesis using PreviewSettled True by simp
  qed (use PreviewSettled i in auto)
next
  case (TriggerUpload r)
  assume i: "wf_state s"
  show ?thesis
  proof (cases "r < length (heap s) \<and> triggerUpload (heap s ! r)")
    case True
    then have "entry_ok s r" using i by (simp add: wf_state_def)
    then have "wf_state (triggerUpload_fn p r s)"
      using True entry_ok_trigger by (intro wf_state_frame [OF i frame_trigger]) simp_all
    then show ?thesis using TriggerUpload True by simp
  qed (use TriggerUpload i in auto)
next
  case (ParamsResolved r res)
  assume i: "wf_state s"
  show ?thesis
  proof (cases "r < length (heap s) \<and> 0 < awaiting_params (heap s ! r)")
    case True
    then have "entry_ok s r" using i by (simp add: wf_state_def)
    then have "wf_state (uploadFile_resume p r res s)"
      using True entry_ok_uploadFile_resume by (intro wf_state_frame [OF i frame_uploadFile_resume]) simp_all
    then show ?thesis using ParamsResolved True by simp
  qed (use ParamsResolved i in auto)
next
  case (ParamsRejected r)
  assume i: "wf_state s"
  show ?thesis
  proof (cases "r < length (heap s) \<and> 0 < awaiting_params (heap s ! r)")
    case True
    then have "entry_ok s r" using i by (simp add: wf_state_def)
    then have "wf_state (uploadFile_reject r s)"
      using True entry_ok_uploadFile_reject by (intro wf_state_frame [OF i frame_uploadFile_reject]) simp_all
    then show ?thesis using ParamsRejected True by simp
  qed (use ParamsRejected i in auto)
next
  case (Progress x l t)
  assume i: "wf_state s"
  show ?thesis
  proof (cases "x < length (xhrs s)")
    case True
    then have r: "xhrs s ! x < length (heap s)" using i by (simp add: wf_state_def)
    then have "entry_ok s (xhrs s ! x)" using i by (simp add: wf_state_def)
    then have "wf_state (on_progress x l t s)"
      using r entry_ok_progress by (intro wf_state_frame [OF i frame_progress]) simp_all
    then show ?thesis using Progress True by simp
  qed (use Progress i in simp)
next
  case (ReadyStateChange x rs st)
  assume i: "wf_state s"
  show ?thesis
  proof (cases "x < length (xhrs s)")
    case True
    then have r: "xhrs s ! x < length (heap s)" using i by (simp add: wf_state_def)
    then have "entry_ok s (xhrs s ! x)" using i by (simp add: wf_state_def)
    then have "wf_state (on_readystatechange p x rs st s)"
      using r entry_ok_readystatechange by (intro wf_state_frame [OF i frame_readystatechange]) simp_all
    then show ?thesis using ReadyStateChange True by simp
  qed (use ReadyStateChange i in simp)
next
  case (Cancel i)
  assume "wf_state s" then show ?thesis using Cancel by (simp add: wf_state_cancel)
next
  case (Remove i)
  assume "wf_state s" then show ?thesis using Remove by (simp add: wf_state_remove)
next
  case Unmount
  assume "wf_state s" then show ?thesis using Unmount by (simp add: wf_state_unmount)
qed

lemma wf_state_run: "wf_state s \<Longrightarrow> wf_state (run p es s)"
  by (induction es arbitrary: s) (simp_all add: wf_state_step)

lemma wf_state_reach: "wf_state (run p es init)"
  by (rule wf_state_run [OF wf_state_init])

subsection \<open>Settled entries\<close>

lemma progress_self:
  assumes "r < length (heap s)"
  shows "same_control (heap (on_progress x l t s) ! r) (heap s ! r)
         \<and> requests r (trace (on_progress x l t s)) = requests r (trace s)
         \<and> previews r (trace (on_progress x l t s)) = previews r (trace s)
         \<and> xhrs (on_progress x l t s) = xhrs s"
  using assms
  by (cases "xhrs s ! x = r") (simp_all add: same_control_def on_progress_def prim_defs Let_def)

lemma readystatechange_self:
  assumes "r < length (heap s)"
  shows "same_control (heap (on_readystatechange p x rs st s) ! r) (heap s ! r)
         \<and> requests r (trace (on_readystatechange p x rs st s)) = requests r (trace s)
         \<and> previews r (trace (on_readystatechange p x rs st s)) = previews r (trace s)
         \<and> xhrs (on_readystatechange p x rs st s) = xhrs s"
  using assms
  by (cases "xhrs s ! x = r")
    (simp_all add: same_control_def on_readystatechange_def prim_defs Let_def)

lemma settled_touch:
  assumes "settled r s" "touches e s = Some r"
  shows "(\<exists>x l t. e = Progress x l t \<and> x < length (xhrs s) \<and> xhrs s ! x = r)
         \<or> (\<exists>x rs st. e = ReadyStateChange x rs st \<and> x < length (xhrs s) \<and> xhrs s ! x = r)
         \<or> step p e s = s"
proof (cases e)
  case (MediaLoaded r' md)
  then show ?thesis using assms by (simp add: settled_def generatePreview_resume_def)
next
  case (PreviewSettled r' calls delay)
  then show ?thesis using assms by (simp add: settled_def)
next
  case (TriggerUpload r')
  then show ?thesis using assms by (auto simp: settled_def trigger_again)
next
  case (ParamsResolved r' res)
  then show ?thesis using assms by (simp add: settled_def)
next
  case (ParamsRejected r')
  then show ?thesis using assms by (simp add: settled_def)
next
  case (Progress x l t)
  then show ?thesis using assms by (simp split: if_splits)
next
  case (ReadyStateChange x rs st)
  then show ?thesis using assms by (simp split: if_splits)
qed (use assms in simp_all)

lemma settled_step:
  assumes "settled r s"
  shows "settled r (step p e s)
         \<and> requests r (trace (step p e s)) = requests r (trace s)
         \<and> previews r (trace (step p e s)) = previews r (trace s)"
proof (cases "touches e s = Some r")
  case False
  have "r < length (heap s)" using assms by (simp add: settled_def)
  from step_other [OF this False, of p] this step_length [of s p e] assms
  show ?thesis by (simp add: settled_def)
next
  case True
  have r: "r < length (heap s)" using assms by (simp add: settled_def)
  from settled_touch [OF assms True, of p]
  consider (P) x l t where "e = Progress x l t" "x < length (xhrs s)"
    | (R) x rs st where "e = ReadyStateChange x rs st" "x < length (xhrs s)"
    | (I) "step p e s = s" by blast
  then show ?thesis
  proof cases
    case P
    from progress_self [OF r, where x = x and l = l and t = t]
    show ?thesis using P assms step_length [of s p e]
      by (simp add: settled_def same_control_def)
  next
    case R
    from readystatechange_self [OF r, where p = p and x = x and rs = rs and st = st]
    show ?thesis using R assms step_length [of s p e]
      by (simp add: settled_def same_control_def)
  next
    case I
    then show ?thesis using assms by simp
  qed
qed

lemma untouched_step:
  assumes "settled r s" "r \<notin> set (xhrs s)"
  shows "heap (step p e s) ! r = heap s ! r \<and> r \<notin> set (xhrs (step p e s))"
proof (cases "touches e s = Some r")
  case False
  have "r < length (heap s)" using assms by (simp add: settled_def)
  from step_other [OF this False, of p] assms(2) show ?thesis by auto
next
  case True
  from settled_touch [OF assms(1) True, of p] assms(2) show ?thesis by auto
qed

lemma settled_run:
  assumes "settled r s"
  shows "settled r (run p es s)
         \<and> requests r (trace (run p es s)) = requests r (trace s)
         \<and> previews r (trace (run p es s)) = previews r (trace s)"
  using assms
proof (induction es arbitrary: s)
  case Nil
  then show ?case by simp
next
  case (Cons e es)
  from settled_step [OF Cons.prems, of p e] Cons.IH [of "step p e s"]
  show ?case by simp
qed



lemma untouched_run:
  assumes "settled r s" "r \<notin> set (xhrs s)"
  shows "heap (run p es s) ! r = heap s ! r"
  using assms
proof (induction es arbitrary: s)
  case Nil
  then show ?case by simp
next
  case (Cons e es)
  from settled_step [OF Cons.prems(1), of p e] untouched_step [OF Cons.prems, of p e]
    Cons.IH [of "step p e s"]
  show ?case by simp
qed

subsection \<open>Handles and ids\<close>

lemma keeps_refl [simp]: "keeps e e"
  by (simp add: keeps_def)

lemma keeps_generatePreview:
  "r < length (heap s) \<Longrightarrow> keeps (heap (generatePreview p r s) ! r) (heap s ! r)"
  by (simp add: keeps_def generatePreview_def after_image_def after_audio_def
      after_video_def prim_defs Let_def split: option.splits)

lemma keeps_size_error:
  "r < length (heap s) \<Longrightarrow>
   keeps (heap (forceUpdate (handleChangeStatus p r (set_status r Error_file_size s))) ! r)
     (heap s ! r)"
  by (simp add: keeps_def prim_defs)

lemma keeps_preview_resume:
  "r < length (heap s) \<Longrightarrow> keeps (heap (generatePreview_resume r md s) ! r) (heap s ! r)"
  by (simp add: keeps_def generatePreview_resume_def after_image_def after_audio_def
      after_video_def prim_defs Let_def split: stage.splits kind.splits)

lemma keeps_trigger:
  "r < length (heap s) \<Longrightarrow> keeps (heap (triggerUpload_fn p r s) ! r) (heap s ! r)"
  by (simp add: keeps_def triggerUpload_fn_def uploadFile_def prim_defs Let_def)

lemma keeps_handleFile_resume:
  "r < length (heap s) \<Longrightarrow> keeps (heap (handleFile_resume p r calls delay s) ! r) (heap s ! r)"
  by (simp add: handleFile_resume_eq keeps_def triggerUpload_fn_def uploadFile_def prim_defs
      Let_def)

lemma keeps_uploadFile_resume:
  "r < length (heap s) \<Longrightarrow> \<not> patches_id r (ParamsResolved r res) \<Longrightarrow>
   keeps (heap (uploadFile_resume p r res s) ! r) (heap s ! r)"
  by (cases res)
    (auto simp add: keeps_def uploadFile_resume_def prim_defs Let_def spread_def no_params_def
      no_patch_def split: option.splits)

lemma keeps_uploadFile_reject:
  "r < length (heap s) \<Longrightarrow> keeps (heap (uploadFile_reject r s) ! r) (heap s ! r)"
  by (simp add: keeps_def uploadFile_reject_def)

lemma keeps_progress:
  "r < length (heap s) \<Longrightarrow> keeps (heap (on_progress x l t s) ! r) (heap s ! r)"
  by (cases "xhrs s ! x = r") (simp_all add: keeps_def on_progress_def prim_defs Let_def)

lemma keeps_readystatechange:
  "r < length (heap s) \<Longrightarrow> keeps (heap (on_readystatechange p x rs st s) ! r) (heap s ! r)"
  by (cases "xhrs s ! x = r")
    (simp_all add: keeps_def on_readystatechange_def prim_defs Let_def)

lemma step_keeps:
  assumes "r < length (heap s)" "\<not> patches_id r e"
  shows "keeps (heap (step p e s) ! r) (heap s ! r)"
proof (cases "touches e s = Some r")
  case False
  from step_other [OF assms(1) False, of p] show ?thesis by simp
next
  case True
  then show ?thesis
  proof (cases e)
    case (MediaLoaded r' md)
    then show ?thesis using True assms keeps_preview_resume by simp
  next
    case (PreviewSettled r' calls delay)
    then show ?thesis using True assms keeps_handleFile_resume by simp
  next
    case (TriggerUpload r')
    then show ?thesis using True assms keeps_trigger by simp
  next
    case (ParamsResolved r' res)
    then show ?thesis using True assms keeps_uploadFile_resume by simp
  next
    case (ParamsRejected r')
    then show ?thesis using True assms keeps_uploadFile_reject by simp
  next
    case (Progress x l t)
    then show ?thesis using True assms keeps_progress by simp
  next
    case (ReadyStateChange x rs st)
    then show ?thesis using True assms keeps_readystatechange by simp
  qed simp_all
qed

lemma step_id_counter:
  "id_counter (step p e s) =
     (case e of
        HandleFile f now \<Rightarrow>
          if rejected p f s \<or> toISOString_throws f then id_counter s else Suc (id_counter s)
      | _ \<Rightarrow> id_counter s)"
proof (cases e)
  case (HandleFile f now)
  show ?thesis
  proof (cases "rejected p f s \<or> toISOString_throws f")
    case True
    then show ?thesis using HandleFile by (simp add: handleFile_refused)
  next
    case False
    then have a: "\<not> rejected p f s" "\<not> toISOString_throws f" by simp_all
    from handleFile_frame [OF a, of now] show ?thesis
      using HandleFile False by (simp add: frame_def)
  qed
next
  case (MediaLoaded r md)
  then show ?thesis using frame_preview_resume [of r s md] by (simp add: frame_def)
next
  case (PreviewSettled r calls delay)
  then show ?thesis using frame_handleFile_resume [of r s p calls delay] by (simp add: frame_def)
next
  case (TriggerUpload r)
  then show ?thesis using frame_trigger [of r s p] by (simp add: frame_def)
next
  case (ParamsResolved r res)
  then show ?thesis using frame_uploadFile_resume [of r s p res] by (simp add: frame_def)
next
  case (ParamsRejected r)
  then show ?thesis using frame_uploadFile_reject [of r s] by (simp add: frame_def)
next
  case (Progress x l t)
  then show ?thesis using frame_progress [of s x l t] by (simp add: frame_def)
next
  case (ReadyStateChange x rs st)
  then show ?thesis using frame_readystatechange [of s x p rs st] by (simp add: frame_def)
next
  case (Cancel i)
  then show ?thesis using frame_cancel [of 0 s p i] by (simp add: frame_def)
next
  case (Remove i)
  then show ?thesis using frame_remove [of 0 s p i] by (simp add: frame_def)
next
  case Unmount
  then show ?thesis by (simp add: componentWillUnmount_def)
qed simp

lemma step_id_counter_mono: "id_counter s \<le> id_counter (step p e s)"
  by (simp add: step_id_counter split: event.splits)

lemma run_id_counter_mono: "id_counter s \<le> id_counter (run p es s)"
proof (induction es arbitrary: s)
  case Nil
  then show ?case by simp
next
  case (Cons e es)
  from step_id_counter_mono [of s p e] Cons [of "step p e s"] show ?case by simp
qed

lemma handleFile_accepted:
  assumes "\<not> rejected p f s" "\<not> toISOString_throws f"
  shows "length (heap (handleFile p f now s)) = Suc (length (heap s))"
    and "id_m (meta (heap (handleFile p f now s) ! length (heap s))) = id_counter s"
    and "id_counter (handleFile p f now s) = Suc (id_counter s)"
    and "r < length (heap s) \<Longrightarrow> heap (handleFile p f now s) ! r = heap s ! r"
proof -
  let ?g = "registered p f now s" and ?n = "length (heap s)"
  have fr: "frame ?n ?g (handleFile p f now s)" using assms by (rule handleFile_frame)
  then show "length (heap (handleFile p f now s)) = Suc (length (heap s))"
    by (simp add: frame_def)
  show "id_counter (handleFile p f now s) = Suc (id_counter s)"
    using fr by (simp add: frame_def)
  have n: "?n < length (heap ?g)" by simp
  have "keeps (heap (handleFile p f now s) ! ?n) (heap ?g ! ?n)"
    using assms keeps_size_error [OF n] keeps_generatePreview [OF n] by (simp add: handleFile_eq)
  then show "id_m (meta (heap (handleFile p f now s) ! length (heap s))) = id_counter s"
    by (simp add: keeps_def new_entry_def)
  show "heap (handleFile p f now s) ! r = heap s ! r" if "r < length (heap s)"
    using that frame_other [OF fr, of r] by (simp add: nth_append)
qed

lemma step_heap_length:
  "length (heap (step p e s)) =
     (case e of
        HandleFile f now \<Rightarrow>
          if rejected p f s \<or> toISOString_throws f then length (heap s)
          else Suc (length (heap s))
      | _ \<Rightarrow> length (heap s))"
proof (cases e)
  case (HandleFile f now)
  show ?thesis
  proof (cases "rejected p f s \<or> toISOString_throws f")
    case True
    then show ?thesis using HandleFile by (simp add: handleFile_refused)
  next
    case False
    then have a: "\<not> rejected p f s" "\<not> toISOString_throws f" by simp_all
    from handleFile_accepted(1) [OF a, of now] show ?thesis
      using HandleFile False by simp
  qed
next
  case (MediaLoaded r md)
  then show ?thesis using frame_preview_resume [of r s md] by (simp add: frame_def)
next
  case (PreviewSettled r calls delay)
  then show ?thesis using frame_handleFile_resume [of r s p calls delay] by (simp add: frame_def)
next
  case (TriggerUpload r)
  then show ?thesis by simp
next
  case (ParamsResolved r res)
  then show ?thesis using frame_uploadFile_resume [of r s p res] by (simp add: frame_def)
next
  case (ParamsRejected r)
  then show ?thesis using frame_uploadFile_reject [of r s] by (simp add: frame_def)
next
  case (Progress x l t)
  then show ?thesis using frame_progress [of s x l t] by (simp add: frame_def)
next
  case (ReadyStateChange x rs st)
  then show ?thesis using frame_readystatechange [of s x p rs st] by (simp add: frame_def)
next
  case (Cancel i)
  then show ?thesis using frame_cancel [of 0 s p i] by (simp add: frame_def)
next
  case (Remove i)
  then show ?thesis using frame_remove [of 0 s p i] by (simp add: frame_def)
next
  case Unmount
  then show ?thesis by (simp add: componentWillUnmount_def)
qed simp

lemma run_snoc: "run p (es @ [e]) s = step p e (run p es s)"
  by (induction es arbitrary: s) simp_all

text \<open>
  From the start of the component on, the counter is the number of entries made, and an
  entry whose id no upload parameters have overwritten has the value the counter had
  when it was made.
\<close>

lemma reach_ids:
  "id_counter (run p es init) = length (heap (run p es init))
   \<and> (\<forall>r < length (heap (run p es init)).
         (\<forall>e \<in> set es. \<not> patches_id r e) \<longrightarrow> id_m (meta (heap (run p es init) ! r)) = r)"
proof (induction es rule: rev_induct)
  case Nil
  then show ?case by (simp add: init_def)
next
  case (snoc e es)
  let ?s = "run p es init"
  have s': "run p (es @ [e]) init = step p e ?s" by (rule run_snoc)
  have c: "id_counter ?s = length (heap ?s)" using snoc by simp
  have 1: "id_counter (step p e ?s) = length (heap (step p e ?s))"
    using c by (simp add: step_id_counter step_heap_length split: event.splits)
  have 2: "id_m (meta (heap (step p e ?s) ! r)) = r"
    if r: "r < length (heap (step p e ?s))" and u: "\<forall>a \<in> set (es @ [e]). \<not> patches_id r a" for r
  proof (cases "r < length (heap ?s)")
    case True
    have "keeps (heap (step p e ?s) ! r) (heap ?s ! r)"
      using True u by (intro step_keeps) simp_all
    then show ?thesis using snoc True u by (simp add: keeps_def)
  next
    case False
    then have "length (heap (step p e ?s)) \<noteq> length (heap ?s)" using r by simp
    then obtain f now where e: "e = HandleFile f now"
      and a: "\<not> rejected p f ?s" "\<not> toISOString_throws f"
      by (auto simp: step_heap_length split: event.splits if_splits)
    have "r = length (heap ?s)"
      using False r handleFile_accepted(1) [OF a, of now] unfolding e by simp
    then show ?thesis
      using handleFile_accepted(2) [OF a, of now] c unfolding e by simp
  qed
  show ?case unfolding s' using 1 2 by blast
qed


section \<open>The claims\<close>

subsection \<open>C1: progress\<close>

text \<open>
  C1 says that a progress event sets \<^verbatim>\<open>percent\<close> to the share of the bytes sent, and
  that the default of 100 is applied only when the total is unknown or zero, so that an
  event with no byte sent of a positive total gives 0.

  The listener computes \<^verbatim>\<open>((e.loaded * 100.0) / e.total) || 100\<close>, and \<^verbatim>\<open>||\<close> takes
  its right side for every falsy left side: 0 as well as \<^verbatim>\<open>NaN\<close>. On the entry of
  \<open>s_uploading\<close>, an event with 0 bytes of 10 sets \<^verbatim>\<open>percent\<close> to 100, not to 0. An
  event with 1 byte of 2 gives 50, as C1 says; one with 1 byte of a total of 0 gives
  \<^verbatim>\<open>Infinity\<close>, which is truthy.
\<close>

theorem progress_nothing_sent_gives_100:
  "percent (meta (heap (step props_demo (Progress 0 0 10) s_uploading) ! 0)) = Finite 100
   \<and> percent (meta (heap (step props_demo (Progress 0 1 2) s_uploading) ! 0)) = Finite 50
   \<and> percent (meta (heap (step props_demo (Progress 0 1 0) s_uploading) ! 0)) = Infinity"
  unfolding s_uploading_def upload_events_def by code_simp

subsection \<open>C2: the object URL of a preview\<close>

text \<open>
  C2 says that the object URL of a preview is released on completion and on a decode
  failure, but kept for an image, where it is stored as \<^verbatim>\<open>meta.previewUrl\<close>.

  The last statement of the \<^verbatim>\<open>try\<close> block revokes the URL for every kind: for the
  image of 10 bytes whose decoder calls \<^verbatim>\<open>onload\<close>, \<^verbatim>\<open>previewUrl\<close> is the URL 0, and
  the trace ends with the revocation of that URL. A decode failure reaches no code of the
  component, since only \<^verbatim>\<open>onload\<close> and \<^verbatim>\<open>onloadedmetadata\<close> are set: for the audio
  file whose decoder fails, the URL is created and not revoked.
\<close>

theorem image_preview_url_revoked:
  "previewUrl (meta (heap (run props_demo [HandleFile png_file clock, MediaLoaded 0 png_media] init) ! 0))
     = Some 0
   \<and> trace (run props_demo [HandleFile png_file clock, MediaLoaded 0 png_media] init)
     = [OnChangeStatus 0 Preparing, ForceUpdate, CreateObjectURL 0 0, RevokeObjectURL 0,
        ForceUpdate]
   \<and> trace (run props_demo [HandleFile mp3_file clock, MediaError 0] init)
     = [OnChangeStatus 0 Preparing, ForceUpdate, CreateObjectURL 0 0]"
  by code_simp

subsection \<open>C3: the transport handle\<close>




subsection \<open>C4: the closure of a deferred upload\<close>



subsection \<open>C5: a file over the size limit\<close>

text \<open>
  C5: a file that is accepted (neither guard rejects it, and its timestamp is one that
  \<^verbatim>\<open>toISOString\<close> takes) and is larger than \<^verbatim>\<open>maxSizeBytes\<close> gets an entry with
  the status error_file_size; the observer is notified of preparing and of
  error_file_size, each followed by a re-render. Whatever happens later, the status of
  the entry stays error_file_size, no object URL is created for it and no request is sent
  for it.
\<close>

theorem oversize_is_terminal:
  assumes "s = run p es init" "\<not> rejected p f s" "\<not> toISOString_throws f"
    "maxSizeBytes p < int (file_size f)" "r = length (heap s)" "s' = handleFile p f now s"
  shows "status (meta (heap s' ! r)) = Error_file_size
         \<and> files s' = files s @ [r]
         \<and> trace s' = trace s @ notified p r Preparing @ [ForceUpdate]
                        @ notified p r Error_file_size @ [ForceUpdate]
         \<and> (\<forall>es'. status (meta (heap (run p es' s') ! r)) = Error_file_size
                  \<and> requests r (trace (run p es' s')) = 0
                  \<and> previews r (trace (run p es' s')) = 0)"
proof -
  have w: "wf_state s" using assms(1) by (simp add: wf_state_reach)
  have s': "s' = forceUpdate (handleChangeStatus p r
                   (set_status r Error_file_size (registered p f now s)))"
    using assms(2,3,4,5,6) by (simp add: handleFile_eq)
  have 1: "status (meta (heap s' ! r)) = Error_file_size"
    unfolding s' assms(5) by (simp add: prim_defs)
  have 2: "files s' = files s @ [r]"
    unfolding s' assms(5) by (simp add: prim_defs)
  have 3: "trace s' = trace s @ notified p r Preparing @ [ForceUpdate]
                        @ notified p r Error_file_size @ [ForceUpdate]"
    unfolding s' assms(5) by (simp add: prim_defs notified_def)
  have q: "requests r (trace s) = 0" "previews r (trace s) = 0" "r \<notin> set (xhrs s)"
    using w assms(5) by (auto simp: wf_state_def)
  have st: "settled r s'"
    unfolding s' assms(5) by (simp add: settled_def prim_defs new_entry_def)
  have nx: "r \<notin> set (xhrs s')"
    using q(3) unfolding s' by (simp add: prim_defs)
  have 4: "status (meta (heap (run p es' s') ! r)) = Error_file_size
           \<and> requests r (trace (run p es' s')) = 0
           \<and> previews r (trace (run p es' s')) = 0" for es'
    using settled_run [OF st, of p es'] untouched_run [OF st nx, of p es'] 1 3 q(1,2)
    by simp
  show ?thesis using 1 2 3 4 by blast
qed

theorem oversize_is_terminal_witness:
  "status (meta (heap (handleFile props_demo big_file clock init) ! 0)) = Error_file_size
   \<and> files (handleFile props_demo big_file clock init) = files init @ [0]
   \<and> trace (handleFile props_demo big_file clock init)
       = trace init @ notified props_demo 0 Preparing @ [ForceUpdate]
           @ notified props_demo 0 Error_file_size @ [ForceUpdate]
   \<and> status (meta (heap (run props_demo [PreviewSettled 0 0 False, TriggerUpload 0]
         (handleFile props_demo big_file clock init)) ! 0)) = Error_file_size
   \<and> requests 0 (trace (run props_demo [PreviewSettled 0 0 False, TriggerUpload 0]
         (handleFile props_demo big_file clock init))) = 0
   \<and> previews 0 (trace (run props_demo [PreviewSettled 0 0 False, TriggerUpload 0]
         (handleFile props_demo big_file clock init))) = 0"
proof -
  have a: "init = run props_demo [] init" by simp
  have b: "\<not> rejected props_demo big_file init" by code_simp
  have t: "\<not> toISOString_throws big_file" by code_simp
  have c: "maxSizeBytes props_demo < int (file_size big_file)" by code_simp
  have d: "0 = length (heap init)" by code_simp
  from oversize_is_terminal [OF a b t c d refl] show ?thesis by blast
qed

subsection \<open>C6: upload parameters without a destination\<close>

text \<open>
  C6: when the provider resolves to nothing, or to a value whose \<^verbatim>\<open>url\<close> is missing or
  empty, the status of the entry becomes error_upload_params, the observer is notified,
  a re-render follows, no \<^verbatim>\<open>XMLHttpRequest\<close> is created, and no request is sent for
  the entry then or later.
\<close>

theorem missing_url_sends_nothing:
  assumes "s = run p es init" "r < length (heap s)" "0 < awaiting_params (heap s ! r)"
    "case res of None \<Rightarrow> True | Some q \<Rightarrow> url q = None \<or> url q = Some []"
    "s' = step p (ParamsResolved r res) s"
  shows "status (meta (heap s' ! r)) = Error_upload_params
         \<and> trace s' = trace s @ notified p r Error_upload_params @ [ForceUpdate]
         \<and> xhrs s' = xhrs s
         \<and> (\<forall>es'. requests r (trace (run p es' s')) = 0)"
proof -
  have "wf_state s" using assms(1) by (simp add: wf_state_reach)
  then have e: "entry_ok s r" using assms(2) by (simp add: wf_state_def)
  have a: "awaiting_params (heap s ! r) = 1" "requests r (trace s) = 0"
    "stage (heap s ! r) = Returned" "triggered (heap s ! r)"
    using e assms(3) by (auto simp: entry_ok_def)
  let ?s0 = "upd r (\<lambda>e. e\<lparr> awaiting_params := awaiting_params e - 1 \<rparr>) s"
  have s': "s' = forceUpdate (handleChangeStatus p r (set_status r Error_upload_params ?s0))"
    using assms(2,3,4,5)
    by (auto simp: uploadFile_resume_def no_params_def Let_def split: option.splits)
  have 1: "status (meta (heap s' ! r)) = Error_upload_params"
    using assms(2) unfolding s' by (simp add: prim_defs)
  have 2: "trace s' = trace s @ notified p r Error_upload_params @ [ForceUpdate]"
    using assms(2) unfolding s' by (simp add: prim_defs notified_def)
  have 3: "xhrs s' = xhrs s"
    unfolding s' by (simp add: prim_defs)
  have "settled r s'"
    using assms(2) a unfolding s' by (simp add: settled_def prim_defs)
  from settled_run [OF this, of p] 2 a(2)
  have 4: "requests r (trace (run p es' s')) = 0" for es'
    by simp
  show ?thesis using 1 2 3 4 by blast
qed

theorem missing_url_sends_nothing_witness:
  "status (meta (heap (step props_demo (ParamsResolved 0 (Some no_params)) s_awaiting) ! 0))
     = Error_upload_params
   \<and> trace (step props_demo (ParamsResolved 0 (Some no_params)) s_awaiting)
       = trace s_awaiting @ notified props_demo 0 Error_upload_params @ [ForceUpdate]
   \<and> xhrs (step props_demo (ParamsResolved 0 (Some no_params)) s_awaiting) = xhrs s_awaiting
   \<and> requests 0 (trace (run props_demo [TriggerUpload 0, ParamsResolved 0 (Some url_params)]
         (step props_demo (ParamsResolved 0 (Some no_params)) s_awaiting))) = 0"
proof -
  have a: "s_awaiting = run props_demo awaiting_events init" by (simp add: s_awaiting_def)
  have b: "0 < length (heap s_awaiting)"
    unfolding s_awaiting_def awaiting_events_def by code_simp
  have c: "0 < awaiting_params (heap s_awaiting ! 0)"
    unfolding s_awaiting_def awaiting_events_def by code_simp
  have d: "case Some no_params of None \<Rightarrow> True | Some q \<Rightarrow> url q = None \<or> url q = Some []"
    by (simp add: no_params_def)
  from missing_url_sends_nothing [OF a b c d refl] show ?thesis by blast
qed

subsection \<open>C7: the answers of the transport\<close>

text \<open>
  C7: at \<^verbatim>\<open>readyState\<close> 2 (headers received) or 4 (complete), a status of 0 sets the
  entry to aborted; a status code from 200 up to, not including, 400 sets
  \<^verbatim>\<open>percent\<close> to 100 and the entry to headers_received at 2 and to done at 4; a
  status code of 400 or more sets the entry to error_upload. Each time the observer is
  notified of the new status and a re-render follows.
\<close>

theorem readystatechange_transitions:
  assumes "s = run p es init" "x < length (xhrs s)" "readyState = 2 \<or> readyState = 4"
    "r = xhrs s ! x" "s' = step p (ReadyStateChange x readyState st) s"
  shows "(st = 0 \<longrightarrow>
            status (meta (heap s' ! r)) = Aborted
            \<and> trace s' = trace s @ notified p r Aborted @ [ForceUpdate])
         \<and> (200 \<le> st \<and> st < 400 \<longrightarrow>
            status (meta (heap s' ! r)) = (if readyState = 2 then Headers_received else Done)
            \<and> percent (meta (heap s' ! r)) = Finite 100
            \<and> trace s' = trace s
                 @ notified p r (if readyState = 2 then Headers_received else Done)
                 @ [ForceUpdate])
         \<and> (400 \<le> st \<longrightarrow>
            status (meta (heap s' ! r)) = Error_upload
            \<and> trace s' = trace s @ notified p r Error_upload @ [ForceUpdate])"
proof -
  have "wf_state s" using assms(1) by (simp add: wf_state_reach)
  then have r: "r < length (heap s)" using assms(2,4) by (simp add: wf_state_def)
  have s': "s' = on_readystatechange p x readyState st s"
    using assms(2,5) by simp
  show ?thesis
    using r assms(3,4) unfolding s'
    by (auto simp: on_readystatechange_def prim_defs notified_def Let_def)
qed

theorem readystatechange_transitions_witness:
  "status (meta (heap (step props_demo (ReadyStateChange 0 4 200) s_uploading) ! 0)) = Done
   \<and> percent (meta (heap (step props_demo (ReadyStateChange 0 4 200) s_uploading) ! 0))
       = Finite 100
   \<and> trace (step props_demo (ReadyStateChange 0 4 200) s_uploading)
       = trace s_uploading @ notified props_demo 0 Done @ [ForceUpdate]"
proof -
  have a: "s_uploading = run props_demo upload_events init" by (simp add: s_uploading_def)
  have b: "0 < length (xhrs s_uploading)"
    unfolding s_uploading_def upload_events_def by code_simp
  have c: "0 = xhrs s_uploading ! 0"
    unfolding s_uploading_def upload_events_def by code_simp
  from readystatechange_transitions [OF a b _ c refl, of 4 200] show ?thesis by simp
qed

subsection \<open>C8: rejected files\<close>

text \<open>
  C8: a file whose type starts with none of the configured prefixes, or one that arrives
  when the list has \<^verbatim>\<open>maxFiles\<close> entries or more, changes nothing: the list keeps its
  length, the trace gets no notification and the id counter keeps its value.
\<close>

theorem rejected_file_leaves_no_trace:
  assumes "rejected p f s"
  shows "handleFile p f now s = s
         \<and> length (files (handleFile p f now s)) = length (files s)
         \<and> trace (handleFile p f now s) = trace s
         \<and> id_counter (handleFile p f now s) = id_counter s"
  using assms by (simp add: handleFile_eq)

theorem rejected_file_leaves_no_trace_witness:
  "handleFile props_images text_file clock init = init
   \<and> length (files (handleFile props_images text_file clock init)) = length (files init)
   \<and> trace (handleFile props_images text_file clock init) = trace init
   \<and> id_counter (handleFile props_images text_file clock init) = id_counter init"
proof -
  have "rejected props_images text_file init" by code_simp
  from rejected_file_leaves_no_trace [OF this] show ?thesis .
qed

subsection \<open>C9: ids\<close>

text \<open>
  C9 says that the \<^verbatim>\<open>meta.id\<close> values of two entries are never the same, that ids are
  given in strictly increasing order and that none is used again.

  \<^verbatim>\<open>uploadFile\<close> merges the \<^verbatim>\<open>meta\<close> object of the upload parameters over
  \<^verbatim>\<open>fileWithMeta.meta\<close>, \<^verbatim>\<open>id\<close> included. In \<open>s_dup\<close> both entries of the list have
  the id 0.
\<close>

theorem duplicate_id_counterexample:
  "files s_dup = [0, 1] \<and> id_m (meta (heap s_dup ! 0)) = 0 \<and> id_m (meta (heap s_dup ! 1)) = 0"
  unfolding s_dup_def dup_events_def by code_simp

text \<open>
  C9 as the code has it, for a counter below \<open>2 ^ 53\<close>, where \<^verbatim>\<open>id += 1\<close> is exact. The id
  given to an accepted file (neither guard rejects it, and its timestamp is one that
  \<^verbatim>\<open>toISOString\<close> takes) is the value of the counter, and a file accepted later,
  after any events, removals included, is given a strictly larger one. An entry keeps
  the id it was given unless upload parameters of this very entry carry an \<^verbatim>\<open>id\<close> in
  their \<^verbatim>\<open>meta\<close>: of two entries ever created whose ids were not overwritten, in the
  list or removed from it, the one created later has the larger \<^verbatim>\<open>meta.id\<close>, and both
  are below the counter, whatever has happened to the ids of other entries.
\<close>

theorem ids_given_in_increasing_order:
  "(\<not> rejected p f s \<and> \<not> toISOString_throws f \<and> t = run p es' (handleFile p f now s)
      \<and> \<not> rejected p g t \<and> \<not> toISOString_throws g \<and> id_counter t \<le> 9007199254740992 \<longrightarrow>
      id_m (meta (heap (handleFile p f now s) ! length (heap s))) = id_counter s
      \<and> id_m (meta (heap (handleFile p g now' t) ! length (heap t))) = id_counter t
      \<and> id_counter s < id_counter t)
   \<and> ((\<forall>e \<in> set es. \<not> patches_id r e \<and> \<not> patches_id r' e) \<and> r' < r
        \<and> r < length (heap (run p es init))
        \<and> id_counter (run p es init) \<le> 9007199254740992 \<longrightarrow>
      id_m (meta (heap (run p es init) ! r')) < id_m (meta (heap (run p es init) ! r))
      \<and> id_m (meta (heap (run p es init) ! r)) < id_counter (run p es init))"
proof -
  have 1: "id_m (meta (heap (handleFile p f now s) ! length (heap s))) = id_counter s
      \<and> id_m (meta (heap (handleFile p g now' t) ! length (heap t))) = id_counter t
      \<and> id_counter s < id_counter t"
    if a: "\<not> rejected p f s" "\<not> toISOString_throws f"
      and t: "t = run p es' (handleFile p f now s)"
      and b: "\<not> rejected p g t" "\<not> toISOString_throws g"
  proof -
    have "id_counter (handleFile p f now s) \<le> id_counter t"
      unfolding t by (rule run_id_counter_mono)
    then have "id_counter s < id_counter t"
      using handleFile_accepted(3) [OF a, of now] by simp
    then show ?thesis
      using handleFile_accepted(2) [OF a, of now] handleFile_accepted(2) [OF b, of now']
      by simp
  qed
  have 2: "id_m (meta (heap (run p es init) ! r')) < id_m (meta (heap (run p es init) ! r))
      \<and> id_m (meta (heap (run p es init) ! r)) < id_counter (run p es init)"
    if "\<forall>e \<in> set es. \<not> patches_id r e \<and> \<not> patches_id r' e" "r' < r"
      "r < length (heap (run p es init))"
    using reach_ids [of p es] that by simp
  show ?thesis using 1 2 by blast
qed

theorem ids_given_in_increasing_order_witness:
  "id_m (meta (heap (handleFile props_demo text_file clock init) ! length (heap init)))
     = id_counter init
   \<and> id_m (meta (heap (handleFile props_demo png_file clock
          (run props_demo [Remove 0] (handleFile props_demo text_file clock init)))
        ! length (heap (run props_demo [Remove 0] (handleFile props_demo text_file clock init)))))
     = id_counter (run props_demo [Remove 0] (handleFile props_demo text_file clock init))
   \<and> id_counter init
     < id_counter (run props_demo [Remove 0] (handleFile props_demo text_file clock init))
   \<and> id_m (meta (heap (run props_demo patched_events init) ! 0))
     < id_m (meta (heap (run props_demo patched_events init) ! 2))
   \<and> id_m (meta (heap (run props_demo patched_events init) ! 2))
     < id_counter (run props_demo patched_events init)"
proof -
  let ?t = "run props_demo [Remove 0] (handleFile props_demo text_file clock init)"
  have a: "\<not> rejected props_demo text_file init \<and> \<not> toISOString_throws text_file"
    by code_simp
  have b: "\<not> rejected props_demo png_file ?t \<and> \<not> toISOString_throws png_file"
    by code_simp
  have "id_counter ?t = 1" by code_simp
  then have c: "id_counter ?t \<le> 9007199254740992" by simp
  have d: "\<forall>e \<in> set patched_events. \<not> patches_id 2 e \<and> \<not> patches_id 0 e"
    unfolding patched_events_def dup_events_def by code_simp
  have e: "(0::nat) < 2 \<and> 2 < length (heap (run props_demo patched_events init))"
    unfolding patched_events_def dup_events_def by code_simp
  have "id_counter (run props_demo patched_events init) = 3"
    unfolding patched_events_def dup_events_def by code_simp
  then have f: "id_counter (run props_demo patched_events init) \<le> 9007199254740992" by simp
  from ids_given_in_increasing_order [where p = props_demo and f = text_file and s = init
      and t = ?t and es' = "[Remove 0]" and now = clock and g = png_file and now' = clock
      and es = patched_events and r = 2 and r' = 0] a b c d e f
  show ?thesis by blast
qed

subsection \<open>C10: cancel and remove without a target\<close>

text \<open>
  C10: with an id that no entry of the list has, \<^verbatim>\<open>handleRemove\<close> and
  \<^verbatim>\<open>handleCancel\<close> leave the state as it is: the list and the trace are unchanged, so
  that no observer is called and nothing is aborted. \<^verbatim>\<open>handleCancel\<close> also leaves the
  state as it is when the entry it finds has no transport handle.
\<close>

theorem cancel_remove_unknown_id:
  "((\<forall>r \<in> set (files s). id_m (meta (heap s ! r)) \<noteq> i) \<longrightarrow>
      handleRemove p i s = s \<and> handleCancel p i s = s)
   \<and> (findIndex (\<lambda>r. id_m (meta (heap s ! r)) = i) (files s) = Some k
        \<and> xhr (heap s ! (files s ! k)) = None \<longrightarrow> handleCancel p i s = s)"
proof -
  have "findIndex (\<lambda>r. id_m (meta (heap s ! r)) = i) (files s) = None"
    if "\<forall>r \<in> set (files s). id_m (meta (heap s ! r)) \<noteq> i"
    using that by (simp add: findIndex_None)
  then show ?thesis
    by (auto simp: handleRemove_def handleCancel_def)
qed

theorem cancel_remove_unknown_id_witness:
  "handleRemove props_demo 7 s_awaiting = s_awaiting
   \<and> handleCancel props_demo 7 s_awaiting = s_awaiting
   \<and> handleCancel props_demo 0 s_awaiting = s_awaiting"
proof -
  have a: "\<forall>r \<in> set (files s_awaiting). id_m (meta (heap s_awaiting ! r)) \<noteq> 7"
    unfolding s_awaiting_def awaiting_events_def by code_simp
  have b: "findIndex (\<lambda>r. id_m (meta (heap s_awaiting ! r)) = 0) (files s_awaiting) = Some 0"
    unfolding s_awaiting_def awaiting_events_def by code_simp
  have c: "xhr (heap s_awaiting ! (files s_awaiting ! 0)) = None"
    unfolding s_awaiting_def awaiting_events_def by code_simp
  from cancel_remove_unknown_id [of s_awaiting 7 props_demo]
    cancel_remove_unknown_id [of s_awaiting 0 props_demo 0] a b c
  show ?thesis by blast
qed

end
